(* ===== verification/Prelude.thy ===== *)
theory Prelude
  imports Main
    "HOL-Library.Word"
    "HOL-Library.Char_ord"
    "HOL-Library.List_Lexorder"
    "HOL-Library.Product_Lexorder"
    "HOL-Library.AList"
begin

text \<open>
  Shared vocabulary of the PeerVault development: bytes and Go integers, Go errors and panics as
  values, readers (\<open>io.Reader\<close>) as the list of results their calls return, finite Go maps as
  association lists, and the two interfaces that several components implement: a codec (encode then
  decode gives the value back) and a transition system with its invariant rule.
\<close>

unbundle bit_operations_syntax

named_theorems go_simps \<open>defining equations of the Go library functions\<close>
named_theorems fs_simps \<open>effect of the file system calls\<close>
named_theorems store_simps \<open>operations of the content store\<close>

section \<open>Bytes, strings and Go integers\<close>

type_synonym byte = "8 word"
type_synonym bytes = "byte list"

text \<open>A Go string is a byte sequence; \<open>[]byte(s)\<close> and \<open>string(b)\<close> are the two conversions.\<close>

definition byte_of_char :: "char \<Rightarrow> byte" where
  "byte_of_char c = word_of_nat (of_char c)"

definition char_of_byte :: "byte \<Rightarrow> char" where
  "char_of_byte b = char_of (unat b)"

definition str_bytes :: "string \<Rightarrow> bytes" where
  "str_bytes s = map byte_of_char s"

definition bytes_str :: "bytes \<Rightarrow> string" where
  "bytes_str b = map char_of_byte b"

lemma unat_byte_of_char [simp]: "unat (byte_of_char c) = of_char c"
  by (simp add: byte_of_char_def unat_of_nat take_bit_nat_eq_self)

lemma char_of_byte_of_char [simp]: "char_of_byte (byte_of_char c) = c"
  by (simp add: char_of_byte_def)

lemma byte_of_char_of_byte [simp]: "byte_of_char (char_of_byte b) = b"
proof -
  have "unat b < 256"
    using unsigned_less [of b, where ?'a = nat] by simp
  then show ?thesis
    by (simp add: byte_of_char_def char_of_byte_def)
qed

lemma bytes_str_bytes [simp]: "bytes_str (str_bytes s) = s"
  by (simp add: bytes_str_def str_bytes_def comp_def)

lemma str_bytes_str [simp]: "str_bytes (bytes_str b) = b"
  by (simp add: bytes_str_def str_bytes_def comp_def)

lemma length_str_bytes [simp]: "length (str_bytes s) = length s"
  by (simp add: str_bytes_def)

lemma inj_str_bytes: "str_bytes s = str_bytes t \<longleftrightarrow> s = t"
  by (metis bytes_str_bytes)

text \<open>Two's complement wrap-around of \<open>int16\<close> and \<open>int64\<close> conversions and arithmetic.\<close>

definition i16 :: "int \<Rightarrow> int" where
  "i16 x = signed_take_bit 15 x"

definition i64 :: "int \<Rightarrow> int" where
  "i64 x = signed_take_bit 63 x"

lemma i64_id [simp]: "- (2 ^ 63) \<le> x \<Longrightarrow> x < 2 ^ 63 \<Longrightarrow> i64 x = x"
  by (simp add: i64_def signed_take_bit_int_eq_self)

lemma i16_id [simp]: "- (2 ^ 15) \<le> x \<Longrightarrow> x < 2 ^ 15 \<Longrightarrow> i16 x = x"
  by (simp add: i16_def signed_take_bit_int_eq_self)

lemma i64_range: "- (2 ^ 63) \<le> i64 x \<and> i64 x < 2 ^ 63"
  using signed_take_bit_int_greater_eq_minus_exp [of 63 x] signed_take_bit_int_less_exp [of 63 x]
  by (simp add: i64_def)

lemma i16_range: "- (2 ^ 15) \<le> i16 x \<and> i16 x < 2 ^ 15"
  using signed_take_bit_int_greater_eq_minus_exp [of 15 x] signed_take_bit_int_less_exp [of 15 x]
  by (simp add: i16_def)

text \<open>Big-endian and little-endian byte strings of a given length.\<close>

fun be_bytes :: "nat \<Rightarrow> nat \<Rightarrow> bytes" where
  "be_bytes 0 x = []"
| "be_bytes (Suc n) x = be_bytes n (x div 256) @ [word_of_nat (x mod 256)]"

fun le_bytes :: "nat \<Rightarrow> nat \<Rightarrow> bytes" where
  "le_bytes 0 x = []"
| "le_bytes (Suc n) x = word_of_nat (x mod 256) # le_bytes n (x div 256)"

fun of_le_bytes :: "bytes \<Rightarrow> nat" where
  "of_le_bytes [] = 0"
| "of_le_bytes (b # bs) = unat b + 256 * of_le_bytes bs"

fun of_be_bytes :: "nat \<Rightarrow> bytes \<Rightarrow> nat" where
  "of_be_bytes acc [] = acc"
| "of_be_bytes acc (b # bs) = of_be_bytes (acc * 256 + unat b) bs"

lemma length_be_bytes [simp]: "length (be_bytes n x) = n"
  by (induction n arbitrary: x) simp_all

lemma length_le_bytes [simp]: "length (le_bytes n x) = n"
  by (induction n arbitrary: x) simp_all

lemma unat_byte_mod [simp]: "unat (word_of_nat (x mod 256) :: byte) = x mod 256"
  by (simp add: unat_of_nat take_bit_eq_mod)

lemma of_le_bytes_le_bytes: "of_le_bytes (le_bytes n x) = x mod 256 ^ n"
proof (induction n arbitrary: x)
  case 0
  show ?case by simp
next
  case (Suc n)
  have "x mod 256 + 256 * (x div 256 mod 256 ^ n) = x mod (256 * 256 ^ n)"
    by (simp add: mod_mult2_eq)
  with Suc show ?case by simp
qed

section \<open>Errors, panics and readers\<close>

datatype errno = ENOENT | ENOTDIR | EISDIR | EINVAL | ENOTEMPTY

text \<open>
  A Go \<open>error\<close> value.  \<open>Errorf f as\<close> is \<open>fmt.Errorf\<close> or \<open>errors.New\<close> with the format string of the
  source and its printed arguments, \<open>Wrap f e\<close> is \<open>fmt.Errorf\<close> with a \<open>%w\<close> verb.
\<close>

datatype error =
    IoEOF
  | UnexpectedEOF
  | PathError errno string
  | InvalidByteError char
  | ErrLength
  | KeySizeError nat
  | EntropyError
  | SendError string
  | SyntaxError
  | CtxErr string
  | Errorf string "string list"
  | Wrap string error

type_synonym 'a result = "error + 'a"

text \<open>\<open>errors.Is(err, os.ErrNotExist)\<close> and \<open>os.IsNotExist\<close>.\<close>

fun is_not_exist :: "error \<Rightarrow> bool" where
  "is_not_exist (PathError ENOENT _) = True"
| "is_not_exist _ = False"

text \<open>A call that may panic: an index out of range, a negative \<open>make\<close>, a closed channel.\<close>

datatype 'a go = Return 'a | Panic string

text \<open>
  An \<open>io.Reader\<close> is the list of results of its successive \<open>Read\<close> calls: the bytes delivered and
  whether the call also returned no error, \<open>io.EOF\<close> or another error.  After the list is used up
  every call returns zero bytes and \<open>io.EOF\<close>.
\<close>

datatype rstat = ROk | REof | RErr error

type_synonym reader = "(bytes \<times> rstat) list"

text \<open>What a loop that reads until \<open>io.EOF\<close> sees: the bytes, and the error that ended it.\<close>

fun drain :: "reader \<Rightarrow> bytes \<times> error option" where
  "drain [] = ([], None)"
| "drain ((b, ROk) # r) = (case drain r of (bs, e) \<Rightarrow> (b @ bs, e))"
| "drain ((b, REof) # r) = (b, None)"
| "drain ((b, RErr e) # r) = (b, Some e)"

definition bytes_reader :: "bytes \<Rightarrow> reader" where
  "bytes_reader b = [(b, ROk)]"

lemma drain_bytes_reader [simp]: "drain (bytes_reader b) = (b, None)"
  by (simp add: bytes_reader_def)

section \<open>Finite maps as association lists\<close>

text \<open>A Go map is an association list with distinct keys; its iteration order is a choice.\<close>

lemma map_of_filter_keys:
  "map_of (filter (\<lambda>(k, v). P k) al) k = (if P k then map_of al k else None)"
  by (induction al) auto

lemma map_of_filter_keys_fst:
  "map_of (filter (\<lambda>e. P (fst e)) al) k = (if P k then map_of al k else None)"
  by (induction al) auto

lemma distinct_filter_keys:
  "distinct (map fst al) \<Longrightarrow> distinct (map fst (filter P al))"
  by (induction al) auto

section \<open>Interfaces\<close>

text \<open>A codec: decoding what was encoded gives the value back.\<close>

locale codec =
  fixes enc :: "'a \<Rightarrow> 'b"
    and dec :: "'b \<Rightarrow> 'a option"
    and dom_ok :: "'a \<Rightarrow> bool"
  assumes dec_enc: "dom_ok x \<Longrightarrow> dec (enc x) = Some x"
begin

lemma enc_inj: "dom_ok x \<Longrightarrow> dom_ok y \<Longrightarrow> enc x = enc y \<Longrightarrow> x = y"
  by (metis dec_enc option.inject)

lemma enc_inj_on: "inj_on enc (Collect dom_ok)"
  by (auto intro: inj_onI enc_inj)

lemma dec_surj: "dom_ok x \<Longrightarrow> \<exists>y. dec y = Some x"
  using dec_enc by blast

end

text \<open>A state machine: an invariant of the initial states kept by every step holds forever.\<close>

locale machine =
  fixes init :: "'s \<Rightarrow> bool"
    and step :: "'s \<Rightarrow> 'l \<Rightarrow> 's \<Rightarrow> bool"
    and inv :: "'s \<Rightarrow> bool"
  assumes init_inv: "init s \<Longrightarrow> inv s"
    and step_inv: "inv s \<Longrightarrow> step s l t \<Longrightarrow> inv t"
begin

inductive reach :: "'s \<Rightarrow> bool" where
  reach_init: "init s \<Longrightarrow> reach s"
| reach_step: "reach s \<Longrightarrow> step s l t \<Longrightarrow> reach t"

lemma reach_inv: "reach s \<Longrightarrow> inv s"
  by (induction rule: reach.induct) (auto intro: init_inv step_inv)

end

end
