(* ===== verification/GoFloat.thy ===== *)
theory GoFloat
  imports Complex_Main GoStrings
begin

text \<open>
  \<open>float64\<close> as PeerVault uses it: the values are rationals, every operation rounds its exact result to
  the nearest double (ties to even), and \<open>%.nf\<close> prints the exact value rounded to \<open>n\<close> decimals (ties to
  even).  The magnitudes that occur (sizes in bytes, seconds, percentages) are far from overflow and
  from the subnormal range, which are not modelled.
\<close>

definition round_even :: "rat \<Rightarrow> int" where
  "round_even x =
     (let f = \<lfloor>x\<rfloor>; d = x - of_int f
      in if d < 1 / 2 then f
         else if 1 / 2 < d then f + 1
         else if even f then f else f + 1)"

definition pow2 :: "int \<Rightarrow> rat" where
  "pow2 k = (if 0 \<le> k then 2 ^ nat k else 1 / 2 ^ nat (- k))"

text \<open>The binary exponent of a positive rational: \<open>2^e \<le> x < 2^(e+1)\<close>.\<close>

function ilog :: "int \<Rightarrow> nat" where
  "ilog n = (if n < 2 then 0 else Suc (ilog (n div 2)))"
  by pat_completeness auto
termination
  by (relation "measure nat") auto

declare ilog.simps [simp del]

definition expo :: "rat \<Rightarrow> int" where
  "expo x =
     (case quotient_of x of (p, q) \<Rightarrow>
      let e = int (ilog p) - int (ilog q)
      in if pow2 e \<le> x then e else e - 1)"

definition f64 :: "rat \<Rightarrow> rat" where
  "f64 x =
     (if x = 0 then 0
      else let ulp = pow2 (expo \<bar>x\<bar> - 52)
           in of_int (round_even (x / ulp)) * ulp)"

text \<open>\<open>int64(f)\<close>: towards zero; a value out of range gives the minimum, as on amd64.\<close>

definition trunc64 :: "rat \<Rightarrow> int" where
  "trunc64 x =
     (let n = (if x < 0 then - \<lfloor>- x\<rfloor> else \<lfloor>x\<rfloor>)
      in if - (2 ^ 63) \<le> n \<and> n < 2 ^ 63 then n else - (2 ^ 63))"

definition pad0 :: "nat \<Rightarrow> string \<Rightarrow> string" where
  "pad0 w s = replicate (w - length s) (CHR ''0'') @ s"

definition fmt_f :: "nat \<Rightarrow> rat \<Rightarrow> string" where
  "fmt_f d x =
     (let n = round_even (\<bar>x\<bar> * 10 ^ d)
      in (if x < 0 then ''-'' else []) @ Itoa (n div 10 ^ d) @
         (if d = 0 then [] else ''.'' @ pad0 d (Itoa (n mod 10 ^ d))))"

section \<open>Exactness\<close>

lemma round_even_int [simp]: "round_even (of_int n) = n"
  by (simp add: round_even_def)

lemma pow2_nonneg [simp]: "0 \<le> k \<Longrightarrow> pow2 k = 2 ^ nat k"
  by (simp add: pow2_def)

lemma pow2_pos [simp]: "0 < pow2 k"
  by (simp add: pow2_def)

lemma pow2_add: "pow2 (a + b) = pow2 a * pow2 b"
proof -
  have "pow2 k = 2 powi k" for k
    by (simp add: pow2_def power_int_def inverse_eq_divide power_one_over)
  then show ?thesis
    by (simp add: power_int_add)
qed

lemma pow2_neg: "pow2 (- a) = 1 / pow2 a"
  using pow2_add [of a "- a"] pow2_pos [of a] by (simp add: pow2_def field_simps split: if_splits)

lemma ilog_le: "0 < n \<Longrightarrow> 2 ^ ilog n \<le> n"
proof (induction n rule: ilog.induct)
  case (1 n)
  show ?case
  proof (cases "n < 2")
    case True
    with "1.prems" show ?thesis by (simp add: ilog.simps)
  next
    case False
    then have "0 < n div 2"
      by (simp add: pos_imp_zdiv_pos_iff)
    from "1.IH" [OF False this] have "2 * 2 ^ ilog (n div 2) \<le> n"
      by linarith
    with False show ?thesis by (simp add: ilog.simps [of n])
  qed
qed

lemma ilog_1 [simp]: "ilog 1 = 0"
  by (simp add: ilog.simps)

lemma expo_int:
  assumes "0 < n"
  shows "expo (of_int n) = int (ilog n)"
proof -
  have "pow2 (int (ilog n)) \<le> of_int n"
    using ilog_le [OF assms]
    by (metis nat_int of_int_le_iff of_int_numeral of_int_power of_nat_0_le_iff pow2_nonneg)
  then show ?thesis
    by (simp add: expo_def quotient_of_int Let_def)
qed

lemma ilog_shift: "0 < n \<Longrightarrow> ilog (n * 2 ^ k) = ilog n + k"
proof (induction k)
  case 0
  show ?case by simp
next
  case (Suc k)
  have "2 \<le> n * 2 ^ Suc k"
    using Suc.prems one_le_power [of "2 :: int" k] mult_mono [of 1 n 2 "2 ^ Suc k"] by simp
  moreover have "n * 2 ^ Suc k div 2 = n * 2 ^ k"
    by simp
  ultimately have "ilog (n * 2 ^ Suc k) = Suc (ilog (n * 2 ^ k))"
    by (metis ilog.simps linorder_not_le)
  with Suc show ?case by simp
qed

text \<open>Integers of at most 53 significant bits are doubles.\<close>

lemma f64_int_shift:
  assumes "\<bar>n\<bar> < 2 ^ 53"
  shows "f64 (of_int (n * 2 ^ k)) = of_int (n * 2 ^ k)"
proof (cases "n = 0")
  case True
  then show ?thesis by (simp add: f64_def)
next
  case False
  let ?e = "int (ilog \<bar>n\<bar>)" and ?x = "of_int (n * 2 ^ k) :: rat"
  have "expo \<bar>?x\<bar> = int (ilog (\<bar>n\<bar> * 2 ^ k))"
    using expo_int [of "\<bar>n\<bar> * 2 ^ k"] False by (simp add: abs_mult)
  then have e: "expo \<bar>?x\<bar> - 52 = int k + (?e - 52)"
    using ilog_shift [of "\<bar>n\<bar>" k] False by simp
  have "(2::int) ^ ilog \<bar>n\<bar> < 2 ^ 53"
    using assms ilog_le [of "\<bar>n\<bar>"] False by linarith
  then have "ilog \<bar>n\<bar> < 53"
    by (rule power_less_imp_less_exp [rotated]) simp
  then have le: "?e \<le> 52"
    by simp
  have "pow2 (?e - 52) = 1 / pow2 (52 - ?e)"
    using pow2_neg [of "52 - ?e"] by simp
  also have "pow2 (52 - ?e) = of_int (2 ^ nat (52 - ?e))"
    using le by simp
  finally have "pow2 (expo \<bar>?x\<bar> - 52) = 2 ^ k / of_int (2 ^ nat (52 - ?e))" (is "?ulp = _")
    unfolding e pow2_add by simp
  then have quot: "?x / ?ulp = of_int (n * 2 ^ nat (52 - ?e))"
    by simp
  have "of_int (round_even (?x / ?ulp)) * ?ulp = ?x"
    unfolding quot round_even_int unfolding quot [symmetric]
    using pow2_pos [of "expo \<bar>?x\<bar> - 52"] by (simp del: pow2_pos)
  with False show ?thesis
    by (simp add: f64_def Let_def)
qed

lemma f64_int: "\<bar>n\<bar> < 2 ^ 53 \<Longrightarrow> f64 (of_int n) = of_int n"
  using f64_int_shift [of n 0] by simp

lemma trunc64_int: "- (2 ^ 63) \<le> n \<Longrightarrow> n < 2 ^ 63 \<Longrightarrow> trunc64 (of_int n) = n"
proof -
  assume n: "- (2 ^ 63) \<le> n" "n < 2 ^ 63"
  have "\<lfloor>- (of_int n :: rat)\<rfloor> = - n"
    by (metis floor_of_int of_int_minus)
  with n show ?thesis
    by (simp add: trunc64_def Let_def)
qed

end
