(* ===== verification/GoIO.thy ===== *)
theory GoIO
  imports Prelude
begin

text \<open>
  Package \<open>io\<close>: reading from a reader with a buffer of a given size, \<open>io.ReadFull\<close>, \<open>io.ReadAll\<close>,
  \<open>io.LimitReader\<close> and \<open>io.Copy\<close>, and writers that may fail.  The laws say that only the bytes a
  reader delivers matter, not how its calls cut them into chunks.
\<close>

section \<open>Reading\<close>

text \<open>One \<open>Read\<close> call with a buffer of \<open>k\<close> bytes; a longer chunk is delivered in pieces.\<close>

fun rd_read :: "nat \<Rightarrow> reader \<Rightarrow> bytes \<times> rstat \<times> reader" where
  "rd_read k [] = ([], REof, [])"
| "rd_read k ((b, s) # r) =
     (if length b \<le> k then (b, s, (if s = REof then [] else r))
      else (take k b, ROk, (drop k b, s) # r))"

definition rd_size :: "reader \<Rightarrow> nat" where
  "rd_size r = sum_list (map (\<lambda>(b, s). Suc (length b)) r)"

lemma rd_read_dec: "(b, ROk, r') = rd_read k r \<Longrightarrow> 0 < k \<Longrightarrow> rd_size r' < rd_size r"
  by (cases r) (auto simp: rd_size_def split: if_splits)

text \<open>\<open>io.ReadFull\<close>: exactly \<open>k\<close> bytes, or \<open>EOF\<close> if there were none, \<open>ErrUnexpectedEOF\<close> if too few.\<close>

function ReadFull :: "nat \<Rightarrow> reader \<Rightarrow> bytes result \<times> reader" where
  "ReadFull k r =
     (if k = 0 then (Inr [], r)
      else case rd_read k r of (b, s, r') \<Rightarrow>
        if k \<le> length b then (Inr b, r')
        else case s of
          ROk \<Rightarrow> (case ReadFull (k - length b) r' of
                    (Inr bs, r'') \<Rightarrow> (Inr (b @ bs), r'')
                  | (Inl e, r'') \<Rightarrow> (Inl (if e = IoEOF \<and> b \<noteq> [] then UnexpectedEOF else e), r''))
        | REof \<Rightarrow> (Inl (if b = [] then IoEOF else UnexpectedEOF), r')
        | RErr e \<Rightarrow> (Inl e, r'))"
  by pat_completeness auto
termination
  by (relation "measure (\<lambda>(k, r). rd_size r)") (auto intro: rd_read_dec)

declare ReadFull.simps [simp del]

definition ReadAll :: "reader \<Rightarrow> bytes result" where
  "ReadAll r = (case drain r of (b, None) \<Rightarrow> Inr b | (b, Some e) \<Rightarrow> Inl e)"

text \<open>\<open>io.LimitReader\<close>: at most \<open>n\<close> bytes; a limit of zero or less reads nothing.\<close>

fun LimitReader :: "nat \<Rightarrow> reader \<Rightarrow> reader" where
  "LimitReader n [] = []"
| "LimitReader n ((b, s) # r) =
     (if n = 0 then []
      else if n < length b then [(take n b, ROk)]
      else (b, s) # LimitReader (n - length b) r)"

lemma drain_rd_read:
  "drain r =
     (case rd_read k r of (b, s, r') \<Rightarrow>
      case s of
        ROk \<Rightarrow> (case drain r' of (bs, e) \<Rightarrow> (b @ bs, e))
      | REof \<Rightarrow> (b, None)
      | RErr e \<Rightarrow> (b, Some e))"
proof (cases r)
  case Nil
  then show ?thesis by simp
next
  case (Cons c r')
  obtain b s where "c = (b, s)" by fastforce
  with Cons show ?thesis
    by (cases s) (auto split: prod.splits simp flip: append_assoc)
qed

lemma rd_read_length: "rd_read k r = (b, s, r') \<Longrightarrow> length b \<le> k"
  by (cases r) (auto split: if_splits)

lemma rd_read_eof: "rd_read k r = (b, REof, r') \<Longrightarrow> r' = []"
  by (cases r) (auto split: if_splits)

lemma ReadFull_ok:
  assumes "drain r = (d, None)" and "k \<le> length d"
  shows "\<exists>r'. ReadFull k r = (Inr (take k d), r') \<and> drain r' = (drop k d, None)"
  using assms
proof (induction k r arbitrary: d rule: ReadFull.induct)
  case (1 k r)
  show ?case
  proof (cases "k = 0")
    case True
    with "1.prems" show ?thesis by (simp add: ReadFull.simps [of 0 r])
  next
    case False
    obtain b s r' where rd: "rd_read k r = (b, s, r')" by (cases "rd_read k r") auto
    note len = rd_read_length [OF rd]
    have d: "drain r = (case s of ROk \<Rightarrow> (case drain r' of (bs, e) \<Rightarrow> (b @ bs, e))
      | REof \<Rightarrow> (b, None) | RErr e \<Rightarrow> (b, Some e))"
      using drain_rd_read [of r k] rd by simp
    show ?thesis
    proof (cases s)
      case ROk
      then obtain bs where bs: "drain r' = (bs, None)" "d = b @ bs"
        using d "1.prems" by (auto split: prod.splits)
      show ?thesis
      proof (cases "k \<le> length b")
        case True
        with len rd bs False show ?thesis by (simp add: ReadFull.simps [of k r])
      next
        case less: False
        have "\<exists>r''. ReadFull (k - length b) r' = (Inr (take (k - length b) bs), r'') \<and>
            drain r'' = (drop (k - length b) bs, None)"
          using "1.prems" bs less by (intro "1.IH" [OF False rd [symmetric] refl less ROk bs(1)]) simp
        with less rd bs False ROk show ?thesis by (auto simp: ReadFull.simps [of k r])
      qed
    next
      case REof
      with d "1.prems" have "d = b" by simp
      moreover have "r' = []" using rd REof by (simp add: rd_read_eof)
      ultimately show ?thesis
        using rd False len "1.prems" by (auto simp: ReadFull.simps [of "length b" r])
    next
      case (RErr e)
      with d "1.prems" show ?thesis by simp
    qed
  qed
qed

lemma ReadFull_short:
  assumes "drain r = (d, None)" and "length d < k"
  shows "\<exists>r'. ReadFull k r = (Inl (if d = [] then IoEOF else UnexpectedEOF), r')"
  using assms
proof (induction k r arbitrary: d rule: ReadFull.induct)
  case (1 k r)
  then have k: "k \<noteq> 0" by auto
  obtain b s r' where rd: "rd_read k r = (b, s, r')" by (cases "rd_read k r") auto
  have d: "drain r = (case s of ROk \<Rightarrow> (case drain r' of (bs, e) \<Rightarrow> (b @ bs, e))
    | REof \<Rightarrow> (b, None) | RErr e \<Rightarrow> (b, Some e))"
    using drain_rd_read [of r k] rd by simp
  show ?case
  proof (cases s)
    case ROk
    then obtain bs where bs: "drain r' = (bs, None)" "d = b @ bs"
      using d "1.prems" by (auto split: prod.splits)
    with "1.prems" have less: "\<not> k \<le> length b" by simp
    have "\<exists>r''. ReadFull (k - length b) r' = (Inl (if bs = [] then IoEOF else UnexpectedEOF), r'')"
      using "1.prems" bs less by (intro "1.IH" [OF k rd [symmetric] refl less ROk bs(1)]) simp
    with less rd bs k ROk show ?thesis by (auto simp: ReadFull.simps [of k r])
  next
    case REof
    with d "1.prems" rd k show ?thesis by (simp add: ReadFull.simps [of k r])
  next
    case (RErr e)
    with d "1.prems" show ?thesis by simp
  qed
qed

lemma drain_LimitReader:
  "drain r = (d, None) \<Longrightarrow> drain (LimitReader n r) = (take n d, None)"
proof (induction r arbitrary: n d rule: drain.induct)
  case (2 b r)
  then show ?case by (auto split: prod.splits)
qed auto

section \<open>Writing\<close>

text \<open>A writer collects what is written, or fails on every call.\<close>

record writer =
  w_buf :: bytes
  w_err :: "error option"

definition wr_write :: "writer \<Rightarrow> bytes \<Rightarrow> writer \<times> nat result" where
  "wr_write w b =
     (case w_err w of
        Some e \<Rightarrow> (w, Inl e)
      | None \<Rightarrow> (w\<lparr>w_buf := w_buf w @ b\<rparr>, Inr (length b)))"

text \<open>A fresh \<open>bytes.Buffer\<close>, which never fails.\<close>

definition new_buffer :: writer where
  "new_buffer = \<lparr>w_buf = [], w_err = None\<rparr>"

lemma drain_chunks: "drain (map (\<lambda>b. (b, ROk)) bs) = (concat bs, None)"
  by (induction bs) simp_all

end
