(* ===== verification/Metrics.thy ===== *)
theory Metrics
  imports GoFloat GoIO
begin

text \<open>
  \<open>internal/metrics\<close>: the counters and gauges of \<open>metrics.go\<close> with their three export formats, the
  progress reader and writer and \<open>FormatBytes\<close> of \<open>progress.go\<close>.  Times are nanoseconds; the clock is
  an argument, and so is \<open>time.Format\<close>, which depends on the local time zone.
\<close>

section \<open>FormatBytes\<close>

text \<open>The loop over the units: \<open>div\<close> and \<open>exp\<close> at its end.\<close>

function unit_loop :: "int \<Rightarrow> int \<Rightarrow> nat \<Rightarrow> int \<times> nat" where
  "unit_loop n dv ex = (if n \<ge> 1024 then unit_loop (n div 1024) (i64 (dv * 1024)) (ex + 1) else (dv, ex))"
  by pat_completeness auto
termination
  by (relation "measure (\<lambda>(n, _). nat n)") auto

declare unit_loop.simps [simp del]

definition size_units :: "string list" where
  "size_units = [''KB'', ''MB'', ''GB'', ''TB'', ''PB'']"

definition FormatBytes :: "int \<Rightarrow> string go" where
  "FormatBytes b =
     (if b < 1024 then Return (Itoa b @ '' B'')
      else case unit_loop (b div 1024) 1024 0 of (dv, ex) \<Rightarrow>
        if length size_units \<le> ex then Panic ''index out of range''
        else Return (fmt_f 2 (f64 (f64 (of_int b) / f64 (of_int dv))) @ '' '' @ size_units ! ex))"

section \<open>Metrics\<close>

record Metrics =
  filesStored :: int
  filesRetrieved :: int
  filesDeleted :: int
  bytesSent :: int
  bytesReceived :: int
  errorsTotal :: int
  peersConnected :: int
  peersDiscovered :: int
  storageUsed :: int
  storageTotal :: int
  startTime :: int
  lastUpdateTime :: int

definition NewMetrics :: "int \<Rightarrow> int \<Rightarrow> Metrics" where
  "NewMetrics now now' =
     \<lparr>filesStored = 0, filesRetrieved = 0, filesDeleted = 0, bytesSent = 0, bytesReceived = 0,
      errorsTotal = 0, peersConnected = 0, peersDiscovered = 0, storageUsed = 0, storageTotal = 0,
      startTime = now, lastUpdateTime = now'\<rparr>"

definition updateTime :: "int \<Rightarrow> Metrics \<Rightarrow> Metrics" where
  "updateTime now m = m\<lparr>lastUpdateTime := now\<rparr>"

definition IncFilesStored :: "int \<Rightarrow> Metrics \<Rightarrow> Metrics" where
  "IncFilesStored now m = updateTime now (m\<lparr>filesStored := i64 (filesStored m + 1)\<rparr>)"

definition IncFilesRetrieved :: "int \<Rightarrow> Metrics \<Rightarrow> Metrics" where
  "IncFilesRetrieved now m = updateTime now (m\<lparr>filesRetrieved := i64 (filesRetrieved m + 1)\<rparr>)"

definition IncFilesDeleted :: "int \<Rightarrow> Metrics \<Rightarrow> Metrics" where
  "IncFilesDeleted now m = updateTime now (m\<lparr>filesDeleted := i64 (filesDeleted m + 1)\<rparr>)"

definition AddBytesSent :: "int \<Rightarrow> int \<Rightarrow> Metrics \<Rightarrow> Metrics" where
  "AddBytesSent now n m = updateTime now (m\<lparr>bytesSent := i64 (bytesSent m + n)\<rparr>)"

definition AddBytesReceived :: "int \<Rightarrow> int \<Rightarrow> Metrics \<Rightarrow> Metrics" where
  "AddBytesReceived now n m = updateTime now (m\<lparr>bytesReceived := i64 (bytesReceived m + n)\<rparr>)"

definition IncErrors :: "int \<Rightarrow> Metrics \<Rightarrow> Metrics" where
  "IncErrors now m = updateTime now (m\<lparr>errorsTotal := i64 (errorsTotal m + 1)\<rparr>)"

definition SetPeersConnected :: "int \<Rightarrow> int \<Rightarrow> Metrics \<Rightarrow> Metrics" where
  "SetPeersConnected now n m = updateTime now (m\<lparr>peersConnected := n\<rparr>)"

definition SetPeersDiscovered :: "int \<Rightarrow> int \<Rightarrow> Metrics \<Rightarrow> Metrics" where
  "SetPeersDiscovered now n m = updateTime now (m\<lparr>peersDiscovered := n\<rparr>)"

definition SetStorageUsed :: "int \<Rightarrow> int \<Rightarrow> Metrics \<Rightarrow> Metrics" where
  "SetStorageUsed now n m = updateTime now (m\<lparr>storageUsed := n\<rparr>)"

definition SetStorageTotal :: "int \<Rightarrow> int \<Rightarrow> Metrics \<Rightarrow> Metrics" where
  "SetStorageTotal now n m = updateTime now (m\<lparr>storageTotal := n\<rparr>)"

definition UpdateStorageMetrics :: "int \<Rightarrow> int \<Rightarrow> int \<Rightarrow> int \<Rightarrow> Metrics \<Rightarrow> Metrics" where
  "UpdateStorageMetrics now now' used tot m = SetStorageTotal now' tot (SetStorageUsed now used m)"

definition GetUptime :: "int \<Rightarrow> Metrics \<Rightarrow> int" where
  "GetUptime now m = now - startTime m"

definition getStorageUtilization :: "Metrics \<Rightarrow> rat" where
  "getStorageUtilization m =
     (let tot = storageTotal m
      in if tot = 0 then 0
         else f64 (f64 (f64 (of_int (storageUsed m)) / f64 (of_int tot)) * 100))"

text \<open>\<open>Duration.Seconds\<close>, \<open>Minutes\<close> and \<open>Hours\<close>: whole units plus the rest as a fraction.\<close>

definition go_div :: "int \<Rightarrow> int \<Rightarrow> int" where
  "go_div a b = (if a < 0 then - ((- a) div b) else a div b)"

definition go_mod :: "int \<Rightarrow> int \<Rightarrow> int" where
  "go_mod a b = a - b * go_div a b"

definition dur_units :: "int \<Rightarrow> int \<Rightarrow> rat" where
  "dur_units u d =
     f64 (f64 (of_int (go_div d u)) + f64 (f64 (of_int (go_mod d u)) / f64 (of_int u)))"

definition sec :: int where
  "sec = 1000000000"

section \<open>Export formats\<close>

definition lines_of :: "string list \<Rightarrow> string" where
  "lines_of ls = str_join [CHR 0x0A] ls"

definition prom_block :: "string \<Rightarrow> string \<Rightarrow> string \<Rightarrow> string \<Rightarrow> string list" where
  "prom_block name help typ v =
     [''# HELP peervault_'' @ name @ '' '' @ help,
      ''# TYPE peervault_'' @ name @ '' '' @ typ,
      ''peervault_'' @ name @ '' '' @ v, '''']"

definition ToPrometheusFormat :: "int \<Rightarrow> Metrics \<Rightarrow> string" where
  "ToPrometheusFormat now m = lines_of (
     prom_block ''files_stored_total'' ''Total number of files stored'' ''counter'' (Itoa (filesStored m)) @
     prom_block ''files_retrieved_total'' ''Total number of files retrieved'' ''counter'' (Itoa (filesRetrieved m)) @
     prom_block ''files_deleted_total'' ''Total number of files deleted'' ''counter'' (Itoa (filesDeleted m)) @
     prom_block ''bytes_sent_total'' ''Total bytes sent to peers'' ''counter'' (Itoa (bytesSent m)) @
     prom_block ''bytes_received_total'' ''Total bytes received from peers'' ''counter'' (Itoa (bytesReceived m)) @
     prom_block ''errors_total'' ''Total number of errors'' ''counter'' (Itoa (errorsTotal m)) @
     prom_block ''peers_connected'' ''Current number of connected peers'' ''gauge'' (Itoa (peersConnected m)) @
     prom_block ''peers_discovered'' ''Peers discovered via mDNS/PEX'' ''gauge'' (Itoa (peersDiscovered m)) @
     prom_block ''storage_used_bytes'' ''Current storage used in bytes'' ''gauge'' (Itoa (storageUsed m)) @
     prom_block ''storage_total_bytes'' ''Total storage capacity in bytes'' ''gauge'' (Itoa (storageTotal m)) @
     prom_block ''storage_utilization'' ''Storage utilization percentage (0-100)'' ''gauge''
       (fmt_f 2 (getStorageUtilization m)) @
     prom_block ''uptime_seconds'' ''Server uptime in seconds'' ''gauge'' (fmt_f 2 (dur_units sec (GetUptime now m))))"

definition ToJSONFormat :: "(string \<Rightarrow> int \<Rightarrow> string) \<Rightarrow> int \<Rightarrow> Metrics \<Rightarrow> string" where
  "ToJSONFormat time_Format now m =
     (let q = [CHR 0x22]; field = (\<lambda>ind name v. ind @ q @ name @ q @ '': '' @ v)
      in lines_of [
        ''{'',
        ''  '' @ q @ ''files'' @ q @ '': {'',
        field ''    '' ''stored'' (Itoa (filesStored m) @ '',''),
        field ''    '' ''retrieved'' (Itoa (filesRetrieved m) @ '',''),
        field ''    '' ''deleted'' (Itoa (filesDeleted m)),
        ''  },'',
        ''  '' @ q @ ''network'' @ q @ '': {'',
        field ''    '' ''bytes_sent'' (Itoa (bytesSent m) @ '',''),
        field ''    '' ''bytes_received'' (Itoa (bytesReceived m) @ '',''),
        field ''    '' ''peers_connected'' (Itoa (peersConnected m) @ '',''),
        field ''    '' ''peers_discovered'' (Itoa (peersDiscovered m)),
        ''  },'',
        ''  '' @ q @ ''storage'' @ q @ '': {'',
        field ''    '' ''used_bytes'' (Itoa (storageUsed m) @ '',''),
        field ''    '' ''total_bytes'' (Itoa (storageTotal m) @ '',''),
        field ''    '' ''utilization_percent'' (fmt_f 2 (getStorageUtilization m)),
        ''  },'',
        ''  '' @ q @ ''errors'' @ q @ '': {'',
        field ''    '' ''total'' (Itoa (errorsTotal m)),
        ''  },'',
        ''  '' @ q @ ''system'' @ q @ '': {'',
        field ''    '' ''uptime_seconds'' (fmt_f 2 (dur_units sec (GetUptime now m)) @ '',''),
        field ''    '' ''start_time''
          (q @ time_Format ''2006-01-02T15:04:05Z07:00'' (startTime m) @ q @ '',''),
        field ''    '' ''last_update''
          (q @ time_Format ''2006-01-02T15:04:05Z07:00'' (lastUpdateTime m) @ q),
        ''  }'',
        ''}''])"

definition uptime_str :: "int \<Rightarrow> string" where
  "uptime_str uptime =
     (let h = dur_units (3600 * sec) uptime; mins = dur_units (60 * sec) uptime;
          days = trunc64 (f64 (h / 24)); hours = go_mod (trunc64 h) 24; minutes = go_mod (trunc64 mins) 60
      in if days = 0 then
           (if hours = 0 then Itoa minutes @ ''m'' else Itoa hours @ ''h '' @ Itoa minutes @ ''m'')
         else Itoa days @ ''d '' @ Itoa hours @ ''h '' @ Itoa minutes @ ''m'')"

definition ToHumanFormat :: "(string \<Rightarrow> int \<Rightarrow> string) \<Rightarrow> int \<Rightarrow> Metrics \<Rightarrow> string go" where
  "ToHumanFormat time_Format now m =
     (case FormatBytes (bytesSent m) of Panic x \<Rightarrow> Panic x | Return sent \<Rightarrow>
      case FormatBytes (bytesReceived m) of Panic x \<Rightarrow> Panic x | Return rcvd \<Rightarrow>
      case FormatBytes (storageUsed m) of Panic x \<Rightarrow> Panic x | Return used \<Rightarrow>
      case FormatBytes (storageTotal m) of Panic x \<Rightarrow> Panic x | Return tot \<Rightarrow>
      Return (lines_of [
        ''=== PeerVault Metrics ==='', '''',
        ''File Operations:'',
        ''  Stored:     '' @ Itoa (filesStored m),
        ''  Retrieved:  '' @ Itoa (filesRetrieved m),
        ''  Deleted:    '' @ Itoa (filesDeleted m), '''',
        ''Network:'',
        ''  Bytes Sent:     '' @ sent,
        ''  Bytes Received: '' @ rcvd,
        ''  Peers Connected: '' @ Itoa (peersConnected m), '''',
        ''Storage:'',
        ''  Used:        '' @ used,
        ''  Total:       '' @ tot,
        ''  Utilization: '' @ fmt_f 1 (getStorageUtilization m) @ ''%'', '''',
        ''System:'',
        ''  Errors:  '' @ Itoa (errorsTotal m),
        ''  Uptime:  '' @ uptime_str (GetUptime now m),
        ''  Started: '' @ time_Format ''2006-01-02 15:04:05'' (startTime m), '''']))"

definition GetSummary :: "Metrics \<Rightarrow> string" where
  "GetSummary m =
     ''Files: '' @ Itoa (filesStored m) @ '' stored, '' @ Itoa (filesRetrieved m) @ '' retrieved | Peers: '' @
     Itoa (peersConnected m) @ '' | Storage: '' @ fmt_f 1 (getStorageUtilization m) @ ''% used''"

section \<open>Progress\<close>

definition report :: "string \<Rightarrow> int \<Rightarrow> int \<Rightarrow> string go" where
  "report description tot transferred =
     (if tot > 0 then
        (case FormatBytes transferred of Panic x \<Rightarrow> Panic x | Return a \<Rightarrow>
         case FormatBytes tot of Panic x \<Rightarrow> Panic x | Return b \<Rightarrow>
         Return (''[Progress] '' @ description @ '': '' @
           fmt_f 2 (f64 (f64 (f64 (of_int transferred) / f64 (of_int tot)) * 100)) @
           ''% ('' @ a @ '' / '' @ b @ '')''))
      else (case FormatBytes transferred of Panic x \<Rightarrow> Panic x | Return a \<Rightarrow>
            Return (''[Progress] '' @ description @ '': '' @ a @ '' transferred'')))"

record ProgressReader =
  pr_reader :: reader
  pr_total :: int
  pr_transferred :: int
  pr_lastReport :: int
  pr_reportInterval :: int
  pr_description :: string

definition NewProgressReader :: "int \<Rightarrow> reader \<Rightarrow> int \<Rightarrow> string \<Rightarrow> ProgressReader" where
  "NewProgressReader now r tot description =
     \<lparr>pr_reader = r, pr_total = tot, pr_transferred = 0, pr_lastReport = now,
      pr_reportInterval = sec, pr_description = description\<rparr>"

text \<open>
  \<open>Read\<close> with a buffer of \<open>k\<close> bytes: the underlying read, then the reports, which only print.  The
  lines printed are part of the result; a report of a size that cannot be formatted panics.
\<close>

definition pr_Read ::
    "nat \<Rightarrow> int \<Rightarrow> int \<Rightarrow> ProgressReader \<Rightarrow> (bytes \<times> rstat \<times> ProgressReader \<times> string list) go" where
  "pr_Read k now now' pr =
     (case rd_read k (pr_reader pr) of (b, s, r) \<Rightarrow>
      let pr1 = pr\<lparr>pr_reader := r, pr_transferred := i64 (pr_transferred pr + int (length b))\<rparr>;
          line = report (pr_description pr1) (pr_total pr1) (pr_transferred pr1)
      in case (if pr_reportInterval pr1 \<le> now - pr_lastReport pr1
               then (case line of Panic x \<Rightarrow> Panic x | Return l \<Rightarrow> Return (pr1\<lparr>pr_lastReport := now'\<rparr>, [l]))
               else Return (pr1, [])) of
           Panic x \<Rightarrow> Panic x
         | Return (pr2, out) \<Rightarrow>
             if s = REof \<and> b \<noteq> [] then
               (case line of Panic x \<Rightarrow> Panic x | Return l \<Rightarrow> Return (b, s, pr2, out @ [l]))
             else Return (b, s, pr2, out))"

record ProgressWriter =
  pw_writer :: writer
  pw_total :: int
  pw_transferred :: int
  pw_lastReport :: int
  pw_reportInterval :: int
  pw_description :: string

definition NewProgressWriter :: "int \<Rightarrow> writer \<Rightarrow> int \<Rightarrow> string \<Rightarrow> ProgressWriter" where
  "NewProgressWriter now w tot description =
     \<lparr>pw_writer = w, pw_total = tot, pw_transferred = 0, pw_lastReport = now,
      pw_reportInterval = sec, pw_description = description\<rparr>"

definition pr_GetTransferred :: "ProgressReader \<Rightarrow> int" where
  "pr_GetTransferred pr = pr_transferred pr"

definition pw_reportProgress :: "ProgressWriter \<Rightarrow> string go" where
  "pw_reportProgress pw = report (pw_description pw) (pw_total pw) (pw_transferred pw)"

definition pw_GetTransferred :: "ProgressWriter \<Rightarrow> int" where
  "pw_GetTransferred pw = pw_transferred pw"

definition pw_Write ::
    "int \<Rightarrow> int \<Rightarrow> bytes \<Rightarrow> ProgressWriter \<Rightarrow> (nat result \<times> ProgressWriter \<times> string list) go" where
  "pw_Write now now' p pw =
     (case wr_write (pw_writer pw) p of (w, res) \<Rightarrow>
      let n = (case res of Inl _ \<Rightarrow> 0 | Inr n \<Rightarrow> n);
          pw1 = pw\<lparr>pw_writer := w, pw_transferred := i64 (pw_transferred pw + int n)\<rparr>
      in if pw_reportInterval pw1 \<le> now - pw_lastReport pw1
         then (case pw_reportProgress pw1 of
                 Panic x \<Rightarrow> Panic x
               | Return l \<Rightarrow> Return (res, pw1\<lparr>pw_lastReport := now'\<rparr>, [l]))
         else Return (res, pw1, []))"

section \<open>FormatBytes chooses the right unit\<close>

lemma div_1024: "(c :: int) \<le> n div 1024 \<longleftrightarrow> c * 1024 \<le> n" "n div 1024 < c \<longleftrightarrow> n < c * 1024"
proof -
  have "n = 1024 * (n div 1024) + n mod 1024" "0 \<le> n mod 1024" "n mod 1024 < 1024"
    by simp_all
  then show "c \<le> n div 1024 \<longleftrightarrow> c * 1024 \<le> n" and "n div 1024 < c \<longleftrightarrow> n < c * 1024"
    by linarith+
qed

lemma unit_loop_spec:
  assumes "1 \<le> n" and "n * dv < 2 ^ 63" and "dv = 1024 ^ Suc ex"
  shows "\<exists>k. unit_loop n dv ex = (1024 ^ Suc (ex + k), ex + k) \<and> 1024 ^ k \<le> n \<and> n < 1024 ^ Suc k"
  using assms
proof (induction n dv ex rule: unit_loop.induct)
  case (1 n dv ex)
  show ?case
  proof (cases "n \<ge> 1024")
    case False
    then have "unit_loop n dv ex = (dv, ex)"
      by (simp add: unit_loop.simps [of n dv ex])
    with "1.prems" False show ?thesis
      by (intro exI [of _ 0]) simp
  next
    case True
    have pos: "0 < dv"
      using "1.prems"(3) by simp
    have "dv * 1024 \<le> n * dv"
      using True pos by (simp add: mult.commute)
    then have wrap: "i64 (dv * 1024) = dv * 1024"
      using "1.prems"(2) pos by (intro i64_id) linarith+
    have "(n div 1024) * 1024 * dv \<le> n * dv"
      using pos by (intro mult_right_mono) simp_all
    then have "n div 1024 * i64 (dv * 1024) < 2 ^ 63"
      using "1.prems"(2) wrap by (simp add: ac_simps)
    moreover have one: "1 \<le> n div 1024"
      using True by (simp add: div_1024)
    moreover have "i64 (dv * 1024) = 1024 ^ Suc (ex + 1)"
      using "1.prems"(3) wrap by simp
    ultimately obtain k where k: "unit_loop (n div 1024) (i64 (dv * 1024)) (ex + 1) =
        (1024 ^ Suc (ex + 1 + k), ex + 1 + k)" "1024 ^ k \<le> n div 1024" "n div 1024 < 1024 ^ Suc k"
      using "1.IH" [OF True] one by blast
    have "1024 ^ Suc k \<le> n" "n < 1024 ^ Suc (Suc k)"
      using k(2,3) by (simp_all add: div_1024)
    moreover have "unit_loop n dv ex = unit_loop (n div 1024) (i64 (dv * 1024)) (ex + 1)"
      using True by (simp add: unit_loop.simps [of n dv ex])
    ultimately show ?thesis
      using k(1) by (intro exI [of _ "Suc k"]) simp
  qed
qed

lemma unit_of:
  assumes "1024 \<le> b" and "b < 2 ^ 63"
  obtains ex where "unit_loop (b div 1024) 1024 0 = (1024 ^ Suc ex, ex)"
    and "1024 ^ Suc ex \<le> b" and "b < 1024 ^ Suc (Suc ex)"
proof -
  have one: "1 \<le> b div 1024"
    using assms(1) by (simp add: div_1024)
  have "b div 1024 * 1024 < 2 ^ 63"
    using assms(2) by (rule le_less_trans [rotated]) simp
  then obtain k where k: "unit_loop (b div 1024) 1024 0 = (1024 ^ Suc (0 + k), 0 + k)"
    "1024 ^ k \<le> b div 1024" "b div 1024 < 1024 ^ Suc k"
    using unit_loop_spec [of "b div 1024" 1024 0] one by auto
  then show ?thesis
    by (intro that [of k]) (simp_all add: div_1024)
qed

lemma FormatBytes_cases:
  assumes "1024 \<le> b" and "b < 2 ^ 63"
  obtains ex where "1024 ^ Suc ex \<le> b" and "b < 1024 ^ Suc (Suc ex)"
    and "FormatBytes b = (if ex < 5
      then Return (fmt_f 2 (f64 (f64 (of_int b) / f64 (of_int (1024 ^ Suc ex)))) @ '' '' @ size_units ! ex)
      else Panic ''index out of range'')"
proof -
  obtain ex where ex: "unit_loop (b div 1024) 1024 0 = (1024 ^ Suc ex, ex)"
    "1024 ^ Suc ex \<le> b" "b < 1024 ^ Suc (Suc ex)"
    using unit_of [OF assms] .
  have "length size_units = 5"
    by (simp add: size_units_def)
  with ex(1) assms(1) show ?thesis
    by (intro that [OF ex(2,3)]) (simp add: FormatBytes_def)
qed

lemma FormatBytes_panics:
  assumes "b < 2 ^ 63"
  shows "FormatBytes b = Panic ''index out of range'' \<longleftrightarrow> 2 ^ 60 \<le> b"
proof (cases "b < 1024")
  case True
  then show ?thesis by (simp add: FormatBytes_def)
next
  case False
  then obtain ex where ex: "1024 ^ Suc ex \<le> b" "b < 1024 ^ Suc (Suc ex)"
    and panics: "FormatBytes b = Panic ''index out of range'' \<longleftrightarrow> \<not> ex < 5"
    using FormatBytes_cases [of b] assms by (metis (no_types, lifting) go.distinct(1) not_less)
  have "\<not> ex < 5 \<longleftrightarrow> 2 ^ 60 \<le> b"
  proof
    assume "\<not> ex < 5"
    then have "(1024 :: int) ^ 6 \<le> 1024 ^ Suc ex"
      by (intro power_increasing) auto
    with ex(1) show "2 ^ 60 \<le> b" by simp
  next
    assume b: "2 ^ 60 \<le> b"
    show "\<not> ex < 5"
    proof
      assume "ex < 5"
      then have "(1024 :: int) ^ Suc (Suc ex) \<le> 1024 ^ 6"
        by (intro power_increasing) auto
      with ex(2) b show False by simp
    qed
  qed
  with panics show ?thesis by simp
qed

section \<open>Progress readers are transparent\<close>

text \<open>Reading to the end through a progress reader, with the clock readings of each call.\<close>

fun pr_drain ::
    "nat \<Rightarrow> (int \<times> int) list \<Rightarrow> ProgressReader \<Rightarrow> (bytes \<times> rstat \<times> ProgressReader) go option" where
  "pr_drain k [] pr = None"
| "pr_drain k ((now, now') # clock) pr =
     (case pr_Read k now now' pr of
        Panic x \<Rightarrow> Some (Panic x)
      | Return (b, ROk, pr', _) \<Rightarrow>
          (case pr_drain k clock pr' of
             Some (Return (bs, s, pr'')) \<Rightarrow> Some (Return (b @ bs, s, pr''))
           | r \<Rightarrow> r)
      | Return (b, s, pr', _) \<Rightarrow> Some (Return (b, s, pr')))"

lemma pr_Read_Return:
  assumes "pr_Read k now now' pr = Return (b, s, pr', out)"
  shows "rd_read k (pr_reader pr) = (b, s, pr_reader pr')"
    and "pr_transferred pr' = i64 (pr_transferred pr + int (length b))"
  using assms
  by (auto simp: pr_Read_def Let_def split: prod.splits if_splits go.splits)

lemma i64_add: "i64 (i64 a + b) = i64 (a + b)"
proof -
  have "take_bit 64 (i64 a + b) = take_bit 64 (a + b)"
    unfolding i64_def by (simp add: take_bit_signed_take_bit flip: take_bit_add [of 64 _ b])
  then show ?thesis
    unfolding i64_def by (simp add: signed_take_bit_eq_iff_take_bit_eq)
qed

lemma pr_drain_spec:
  "pr_drain k clock pr = Some (Return (bs, s, pr')) \<Longrightarrow>
   drain (pr_reader pr) = (bs, case s of RErr e \<Rightarrow> Some e | _ \<Rightarrow> None) \<and>
   pr_transferred pr' = i64 (pr_transferred pr + int (length bs))"
proof (induction k clock pr arbitrary: bs s pr' rule: pr_drain.induct)
  case (1 k pr)
  then show ?case by simp
next
  case (2 k now now' clock pr)
  obtain b s1 pr1 out where rd: "pr_Read k now now' pr = Return (b, s1, pr1, out)"
    using "2.prems" by (cases "pr_Read k now now' pr") auto
  note step = pr_Read_Return [OF rd]
  have d: "drain (pr_reader pr) = (case s1 of ROk \<Rightarrow> (case drain (pr_reader pr1) of (bs, e) \<Rightarrow> (b @ bs, e))
      | REof \<Rightarrow> (b, None) | RErr e \<Rightarrow> (b, Some e))"
    using drain_rd_read [of "pr_reader pr" k] step(1) by simp
  show ?case
  proof (cases s1)
    case ROk
    then obtain bs' where rec: "pr_drain k clock pr1 = Some (Return (bs', s, pr'))" "bs = b @ bs'"
      using "2.prems" rd by (auto split: option.splits go.splits)
    from "2.IH" [OF rd refl refl ROk refl rec(1)] rec(2) d ROk step(2) show ?thesis
      by (simp add: i64_add add.assoc)
  qed (use "2.prems" rd d step(2) in auto)
qed

lemma FormatBytes_returns: "b < 2 ^ 60 \<Longrightarrow> \<exists>l. FormatBytes b = Return l"
  using FormatBytes_panics [of b] by (auto simp: FormatBytes_def split: prod.splits if_splits)

lemma report_returns: "t < 2 ^ 60 \<Longrightarrow> n < 2 ^ 60 \<Longrightarrow> \<exists>l. report d t n = Return l"
  using FormatBytes_returns [of t] FormatBytes_returns [of n] by (auto simp: report_def)

lemma pr_Read_returns:
  assumes "pr_total pr < 2 ^ 60" and "i64 (pr_transferred pr + int (length (fst (rd_read k (pr_reader pr))))) < 2 ^ 60"
  shows "\<exists>b s pr' out. pr_Read k now now' pr = Return (b, s, pr', out) \<and> pr_total pr' = pr_total pr"
proof -
  obtain b s r where rd: "rd_read k (pr_reader pr) = (b, s, r)"
    by (metis prod_cases3)
  obtain l where "report (pr_description pr) (pr_total pr) (i64 (pr_transferred pr + int (length b))) = Return l"
    using report_returns assms rd by (metis fst_conv)
  then show ?thesis
    by (auto simp: pr_Read_def rd Let_def)
qed

lemma pr_drain_total:
  assumes "0 < k" and "pr_total pr < 2 ^ 60" and "0 \<le> pr_transferred pr"
    and "pr_transferred pr + int (length (fst (drain (pr_reader pr)))) < 2 ^ 60"
    and "rd_size (pr_reader pr) < length clock"
  shows "\<exists>bs s pr'. pr_drain k clock pr = Some (Return (bs, s, pr'))"
  using assms
proof (induction k clock pr rule: pr_drain.induct)
  case (2 k now now' clock pr)
  obtain b s r where rd: "rd_read k (pr_reader pr) = (b, s, r)"
    by (metis prod_cases3)
  have len: "length b + (if s = ROk then length (fst (drain r)) else 0) = length (fst (drain (pr_reader pr)))"
    using drain_rd_read [of "pr_reader pr" k] by (auto simp: rd split: rstat.splits prod.splits)
  then have tr: "i64 (pr_transferred pr + int (length b)) = pr_transferred pr + int (length b)"
    using "2.prems" by (intro i64_id) auto
  obtain pr1 out where rd1: "pr_Read k now now' pr = Return (b, s, pr1, out)" and tot: "pr_total pr1 = pr_total pr"
    using pr_Read_returns [of pr k now now'] "2.prems" len tr rd pr_Read_Return(1) by fastforce
  note R = pr_Read_Return [OF rd1]
  show ?case
  proof (cases s)
    case ROk
    have "rd_size (pr_reader pr1) < rd_size (pr_reader pr)"
      using rd_read_dec R(1) "2.prems"(1) ROk by metis
    then have "\<exists>bs s pr'. pr_drain k clock pr1 = Some (Return (bs, s, pr'))"
      using "2.IH" [OF rd1 refl refl ROk refl]
      using "2.prems" R rd tr len tot ROk by (auto simp: rd1)
    then show ?thesis
      by (auto simp: rd1 ROk)
  qed (simp_all add: rd1)
qed simp

end
