(* ===== verification/GoTime.thy ===== *)
theory GoTime
  imports Metrics
begin

text \<open>
  Package \<open>time\<close>: parsing a duration, and printing one that was rounded to seconds.  A duration is
  a number of nanoseconds.
\<close>

section \<open>time.ParseDuration\<close>

text \<open>\<open>leadingInt\<close>: the digits at the front; the error is overflow of 63 bits.\<close>

fun leading_int :: "int \<Rightarrow> string \<Rightarrow> (int \<times> string) option" where
  "leading_int x [] = Some (x, [])"
| "leading_int x (c # s) =
     (if \<not> is_digit c then Some (x, c # s)
      else if x > 2 ^ 63 div 10 then None
      else let y = x * 10 + digit_value c in if y > 2 ^ 63 then None else leading_int y s)"

text \<open>\<open>leadingFraction\<close>: digits that no longer fit are dropped.\<close>

fun leading_fraction :: "int \<Rightarrow> rat \<Rightarrow> bool \<Rightarrow> string \<Rightarrow> int \<times> rat \<times> string" where
  "leading_fraction x scale ovf [] = (x, scale, [])"
| "leading_fraction x scale ovf (c # s) =
     (if \<not> is_digit c then (x, scale, c # s)
      else if ovf \<or> x > (2 ^ 63 - 1) div 10 then leading_fraction x scale True s
      else let y = x * 10 + digit_value c
           in if y > 2 ^ 63 then leading_fraction x scale True s
              else leading_fraction y (f64 (scale * 10)) False s)"

text \<open>The optional fraction: its digits, their scale, the rest, and whether there were digits.\<close>

definition fraction_part :: "string \<Rightarrow> int \<times> rat \<times> string \<times> bool" where
  "fraction_part s =
     (case s of
        [] \<Rightarrow> (0, 1, s, False)
      | c # t \<Rightarrow>
          if c = CHR ''.'' then
            (case leading_fraction 0 1 False t of (f, scale, r) \<Rightarrow> (f, scale, r, length r \<noteq> length t))
          else (0, 1, s, False))"

definition duration_units :: "(string \<times> int) list" where
  "duration_units =
     [(''ns'', 1), (''us'', 1000), ([CHR 0xC2, CHR 0xB5, CHR ''s''], 1000), ([CHR 0xCE, CHR 0xBC, CHR ''s''], 1000),
      (''ms'', 1000000), (''s'', sec), (''m'', 60 * sec), (''h'', 3600 * sec)]"

definition num_start :: "char \<Rightarrow> bool" where
  "num_start c \<longleftrightarrow> c = CHR ''.'' \<or> is_digit c"

text \<open>The value of a number and its fraction in a unit.\<close>

definition duration_value :: "int \<Rightarrow> int \<Rightarrow> rat \<Rightarrow> int \<Rightarrow> int option" where
  "duration_value v f scale unit =
     (if v > 2 ^ 63 div unit then None
      else let v1 = v * unit;
               v2 = (if f > 0 then v1 + \<lfloor>f64 (f64 (of_int f) * f64 (of_int unit / scale))\<rfloor> else v1)
           in if v2 > 2 ^ 63 then None else Some v2)"

text \<open>The next component, and the rest of the string.\<close>

definition duration_part :: "string \<Rightarrow> (int \<times> string) option" where
  "duration_part s =
     (if s = [] \<or> \<not> num_start (hd s) then None
      else case leading_int 0 s of
        None \<Rightarrow> None
      | Some (v, s1) \<Rightarrow>
         (case fraction_part s1 of (f, scale, s2, post) \<Rightarrow>
          let pre = length s1 \<noteq> length s;
              u = takeWhile (\<lambda>c. \<not> num_start c) s2;
              s3 = dropWhile (\<lambda>c. \<not> num_start c) s2
          in if \<not> pre \<and> \<not> post \<or> u = [] then None
             else case map_of duration_units u of
               None \<Rightarrow> None
             | Some unit \<Rightarrow> map_option (\<lambda>v. (v, s3)) (duration_value v f scale unit)))"

lemma leading_int_length: "leading_int x s = Some (v, r) \<Longrightarrow> length r \<le> length s"
  by (induction x s rule: leading_int.induct) (auto simp: Let_def split: if_splits)

lemma leading_fraction_length: "leading_fraction x sc o1 s = (f, sc', r) \<Longrightarrow> length r \<le> length s"
  by (induction x sc o1 s rule: leading_fraction.induct) (auto simp: Let_def split: if_splits)

lemma fraction_part_length: "fraction_part s = (f, sc, r, post) \<Longrightarrow> length r \<le> length s"
  using leading_fraction_length [of 0 1 False "tl s"]
  by (cases s) (auto simp: fraction_part_def split: if_splits prod.splits intro: le_SucI)

lemma dropWhile_shorter: "takeWhile P s \<noteq> [] \<Longrightarrow> length (dropWhile P s) < length s"
  by (cases s) (auto simp: le_imp_less_Suc length_dropWhile_le split: if_splits)

lemma duration_part_shorter:
  assumes "duration_part s = Some (v, r)"
  shows "length r < length s"
proof -
  obtain x s1 where li: "leading_int 0 s = Some (x, s1)"
    using assms by (auto simp: duration_part_def split: if_splits option.splits)
  obtain f scale s2 post where fr: "fraction_part s1 = (f, scale, s2, post)"
    by (rule prod_cases4)
  have "takeWhile (\<lambda>c. \<not> num_start c) s2 \<noteq> []" "r = dropWhile (\<lambda>c. \<not> num_start c) s2"
    using assms by (auto simp: duration_part_def li fr Let_def split: if_splits option.splits)
  then show ?thesis
    using dropWhile_shorter fraction_part_length [OF fr] leading_int_length [OF li] by fastforce
qed

function duration_loop :: "int \<Rightarrow> string \<Rightarrow> int option" where
  "duration_loop d s =
     (if s = [] then Some d
      else case duration_part s of
        None \<Rightarrow> None
      | Some (v, r) \<Rightarrow> if d + v > 2 ^ 63 then None else duration_loop (d + v) r)"
  by pat_completeness auto

termination
  by (relation "measure (length \<circ> snd)") (auto dest: duration_part_shorter)

declare duration_loop.simps [simp del]

text \<open>The sign, and the sum of the components; the errors are never looked at, so that one suffices.\<close>

definition ParseDuration :: "string \<Rightarrow> int option" where
  "ParseDuration s =
     (let (neg, t) = (case s of
            [] \<Rightarrow> (False, [])
          | c # cs \<Rightarrow> if c = CHR ''-'' then (True, cs) else if c = CHR ''+'' then (False, cs) else (False, s))
      in if t = ''0'' then Some 0
         else if t = [] then None
         else case duration_loop 0 t of
           None \<Rightarrow> None
         | Some d \<Rightarrow> if neg then Some (- d) else if d > 2 ^ 63 - 1 then None else Some d)"

section \<open>Printing\<close>

text \<open>\<open>Duration.Round(time.Second)\<close>: half away from zero.\<close>

definition round_sec :: "int \<Rightarrow> int" where
  "round_sec d =
     (let a = \<bar>d\<bar>; r = a mod sec; q = (if r + r < sec then a - r else a - r + sec)
      in if d < 0 then - q else q)"

text \<open>\<open>Duration.String\<close> of a whole number of seconds.\<close>

definition sec_str :: "int \<Rightarrow> string" where
  "sec_str d =
     (let t = \<bar>d\<bar> div sec; h = t div 3600; m = t div 60 mod 60; s = t mod 60;
          body = (if h > 0 then Itoa h @ ''h'' @ Itoa m @ ''m'' @ Itoa s @ ''s''
                  else if m > 0 then Itoa m @ ''m'' @ Itoa s @ ''s'' else Itoa s @ ''s'')
      in if d < 0 then CHR ''-'' # body else body)"

section \<open>Whole numbers with a unit\<close>

lemma digit_value_range: "is_digit c \<Longrightarrow> 0 \<le> digit_value c \<and> digit_value c \<le> 9"
  by (auto simp: is_digit_def digit_value_def less_eq_char_def)

lemma foldl_digits_mono:
  "list_all is_digit ds \<Longrightarrow> 0 \<le> x \<Longrightarrow> x \<le> foldl (\<lambda>a c. a * 10 + digit_value c) x ds"
proof (induction ds arbitrary: x)
  case (Cons d ds)
  have "0 \<le> x * 10 + digit_value d" "x \<le> x * 10 + digit_value d"
    using Cons.prems digit_value_range [of d] by auto
  then show ?case
    using Cons.IH [of "x * 10 + digit_value d"] Cons.prems by simp
qed simp

lemma leading_int_digits:
  assumes "list_all is_digit ds" and "r = [] \<or> \<not> is_digit (hd r)" and "0 \<le> x"
    and "foldl (\<lambda>a c. a * 10 + digit_value c) x ds < 2 ^ 63"
  shows "leading_int x (ds @ r) = Some (foldl (\<lambda>a c. a * 10 + digit_value c) x ds, r)"
  using assms
proof (induction ds arbitrary: x)
  case Nil
  then show ?case by (cases r) auto
next
  case (Cons d ds)
  let ?y = "x * 10 + digit_value d"
  have y: "0 \<le> ?y" "?y < 2 ^ 63"
    using Cons.prems digit_value_range [of d] foldl_digits_mono [of ds ?y] by auto
  moreover have "x \<le> 2 ^ 63 div 10"
    using y Cons.prems digit_value_range [of d] by auto
  ultimately show ?case
    using Cons by (simp add: Let_def)
qed

lemma nat_str_digits: "list_all is_digit (nat_str n)"
  using nat_str_chars [of _ n] digit_char_props(1) by (auto simp: list_all_iff)

lemma leading_int_nat_str:
  assumes "int n < 2 ^ 63" and "r = [] \<or> \<not> is_digit (hd r)"
  shows "leading_int 0 (nat_str n @ r) = Some (int n, r)"
  using leading_int_digits [OF nat_str_digits assms(2), of 0 n] assms(1) digits_val_nat_str [of n]
  by (simp add: digits_val_def)

lemma duration_unit_props:
  assumes "map_of duration_units u = Some m"
  shows "u \<noteq> []" and "list_all (\<lambda>c. \<not> num_start c) u" and "1 \<le> m"
proof -
  have "list_all (\<lambda>(u, m). u \<noteq> [] \<and> list_all (\<lambda>c. \<not> num_start c) u \<and> 1 \<le> m) duration_units"
    by code_simp
  then show "u \<noteq> []" and "list_all (\<lambda>c. \<not> num_start c) u" and "1 \<le> m"
    using map_of_SomeD [OF assms] unfolding list_all_iff by force+
qed

lemma ParseDuration_whole:
  assumes "map_of duration_units u = Some m" and "int n * m < 2 ^ 63"
  shows "ParseDuration (nat_str n @ u) = Some (int n * m)"
proof -
  note u = duration_unit_props [OF assms(1)]
  obtain c t where c: "nat_str n = c # t" "is_digit c"
    using nat_str_digits [of n] nat_str_not_Nil [of n] by (cases "nat_str n") auto
  have nu: "\<not> is_digit (hd u)" "hd u \<noteq> CHR ''.''"
    using u(1,2) by (cases u; auto simp: num_start_def)+
  have "int n \<le> int n * m"
    using u(3) mult_left_mono [of 1 m "int n"] by simp
  then have n: "int n < 2 ^ 63"
    using assms(2) by linarith
  have li: "leading_int 0 (nat_str n @ u) = Some (int n, u)"
    using leading_int_nat_str [OF n] nu by simp
  have fp: "fraction_part u = (0, 1, u, False)"
    using u(1) nu(2) by (cases u) (auto simp: fraction_part_def)
  have uu: "takeWhile (\<lambda>c. \<not> num_start c) u = u" "dropWhile (\<lambda>c. \<not> num_start c) u = []"
    using u(2) by (auto simp: list_all_iff takeWhile_eq_all_conv dropWhile_eq_Nil_conv)
  have "int n * m div m \<le> 2 ^ 63 div m"
    using assms(2) u(3) by (intro zdiv_mono1) auto
  then have "duration_value (int n) 0 1 m = Some (int n * m)"
    using assms(2) u(3) by (simp add: duration_value_def)
  moreover have "num_start (hd (nat_str n @ u))"
    using c by (simp add: num_start_def)
  ultimately have "duration_part (nat_str n @ u) = Some (int n * m, [])"
    using assms(1) u(1) by (simp add: duration_part_def li fp uu)
  then have "duration_loop 0 (nat_str n @ u) = Some (int n * m)"
    using c(1) assms(2) by (simp add: duration_loop.simps [of 0] duration_loop.simps [of _ "[]"])
  moreover have "c \<noteq> CHR ''-''" "c \<noteq> CHR ''+''"
    using c(2) by (auto simp: is_digit_def less_eq_char_def)
  moreover have "nat_str n @ u \<noteq> ''0''"
    using c(1) u(1) by (cases t) auto
  ultimately show ?thesis
    using c(1) u(1) assms(2) by (auto simp: ParseDuration_def)
qed

end
