(* ===== verification/GoPath.thy ===== *)
theory GoPath
  imports GoStrings
begin

text \<open>
  Lexical path processing of the Go package \<open>path/filepath\<close> on Unix: \<open>Clean\<close>, \<open>Join\<close> and \<open>Dir\<close>.
  Every path is also given as its list of components (\<open>path_of\<close>), the key under which the file
  system model stores it; the absolute root is the list with one empty component.
\<close>

section \<open>Components\<close>

definition sep :: char where
  "sep = CHR ''/''"

definition is_rooted :: "string \<Rightarrow> bool" where
  "is_rooted p = (case p of [] \<Rightarrow> False | c # _ \<Rightarrow> c = sep)"

text \<open>
  The loop of \<open>Clean\<close>: empty and \<open>.\<close> components are dropped, \<open>..\<close> removes the last kept component,
  or is kept itself at the front of a relative path, or vanishes at the front of a rooted one.
  \<open>st\<close> holds the kept components, last one first.
\<close>

fun clean_comps :: "bool \<Rightarrow> string list \<Rightarrow> string list \<Rightarrow> string list" where
  "clean_comps r st [] = rev st"
| "clean_comps r st (c # cs) =
     (if c = [] \<or> c = ''.'' then clean_comps r st cs
      else if c = ''..'' then
        (case st of
           [] \<Rightarrow> clean_comps r (if r then [] else [''..'']) cs
         | t # ts \<Rightarrow> if t = ''..'' then clean_comps r (''..'' # st) cs
                     else clean_comps r ts cs)
      else clean_comps r (c # st) cs)"

definition comps_str :: "bool \<Rightarrow> string list \<Rightarrow> string" where
  "comps_str r cs =
     (if r then sep # str_join [sep] cs
      else if cs = [] then ''.'' else str_join [sep] cs)"

definition Clean :: "string \<Rightarrow> string" where
  "Clean p = comps_str (is_rooted p) (clean_comps (is_rooted p) [] (split sep p))"

text \<open>\<open>filepath.Join\<close>: leading empty elements are ignored, the rest is joined and cleaned.\<close>

fun Join :: "string list \<Rightarrow> string" where
  "Join [] = []"
| "Join (e # es) = (if e = [] then Join es else Clean (str_join [sep] (e # es)))"

text \<open>\<open>filepath.Dir\<close>: everything up to the last separator, cleaned.\<close>

definition Dir_of :: "string \<Rightarrow> string" where
  "Dir_of p = Clean (rev (dropWhile (\<lambda>c. c \<noteq> sep) (rev p)))"

text \<open>The key of a path in the file system model.\<close>

type_synonym path = "string list"

definition path_of :: "string \<Rightarrow> path" where
  "path_of p =
     (if is_rooted p then [] # clean_comps True [] (split sep p)
      else clean_comps False [] (split sep p))"

section \<open>Normal components\<close>

definition norm_comp :: "string \<Rightarrow> bool" where
  "norm_comp c \<longleftrightarrow> c \<noteq> [] \<and> c \<noteq> ''.'' \<and> c \<noteq> ''..'' \<and> sep \<notin> set c"

definition dotdots :: "nat \<Rightarrow> string list" where
  "dotdots n = replicate n ''..''"

text \<open>What \<open>Clean\<close> leaves: leading \<open>..\<close> of a relative path, then normal components.\<close>

definition cleaned :: "bool \<Rightarrow> string list \<Rightarrow> bool" where
  "cleaned r cs \<longleftrightarrow>
     (\<exists>n ns. cs = dotdots n @ ns \<and> list_all norm_comp ns \<and> (r \<longrightarrow> n = 0))"

lemma dotdots_0 [simp]: "dotdots 0 = []"
  and dotdots_Suc: "dotdots (Suc n) = ''..'' # dotdots n"
  by (simp_all add: dotdots_def)

lemma dotdots_snoc: "dotdots n @ [''..''] = dotdots (Suc n)"
  by (simp add: dotdots_def replicate_append_same)

lemma clean_comps_append:
  "clean_comps r st (xs @ ys) = clean_comps r (rev (clean_comps r st xs)) ys"
  by (induction r st xs rule: clean_comps.induct) (auto split: list.splits)

lemma clean_comps_norm:
  "list_all norm_comp cs \<Longrightarrow> clean_comps r st cs = rev st @ cs"
  by (induction cs arbitrary: st) (auto simp: norm_comp_def)

lemma clean_comps_dotdots:
  "clean_comps False (dotdots m) (dotdots n) = dotdots (m + n)"
proof (induction n arbitrary: m)
  case 0
  show ?case by (simp add: dotdots_def)
next
  case (Suc n)
  have "clean_comps False (dotdots m) (''..'' # dotdots n) =
        clean_comps False (dotdots (Suc m)) (dotdots n)"
    by (cases m) (simp_all add: dotdots_Suc)
  also have "\<dots> = dotdots (m + Suc n)"
    using Suc [of "Suc m"] by simp
  finally show ?case by (simp only: dotdots_Suc)
qed

lemma rev_dotdots [simp]: "rev (dotdots n) = dotdots n"
  by (simp add: dotdots_def)

lemma cleaned_snoc_norm:
  "cleaned r cs \<Longrightarrow> norm_comp c \<Longrightarrow> cleaned r (cs @ [c])"
proof -
  assume "cleaned r cs" and c: "norm_comp c"
  then obtain n ns where "cs = dotdots n @ ns" "list_all norm_comp ns" "r \<longrightarrow> n = 0"
    by (auto simp: cleaned_def)
  with c have "cs @ [c] = dotdots n @ (ns @ [c])" "list_all norm_comp (ns @ [c])" "r \<longrightarrow> n = 0"
    by auto
  then show ?thesis unfolding cleaned_def by blast
qed

lemma cleaned_butlast:
  "cleaned r (cs @ [c]) \<Longrightarrow> c \<noteq> ''..'' \<Longrightarrow> cleaned r cs"
proof -
  assume "cleaned r (cs @ [c])" and c: "c \<noteq> ''..''"
  then obtain n ns where *: "cs @ [c] = dotdots n @ ns" "list_all norm_comp ns" "r \<longrightarrow> n = 0"
    by (auto simp: cleaned_def)
  from * c have "ns \<noteq> []"
    by (cases n) (auto simp flip: dotdots_snoc)
  with * have "cs = dotdots n @ butlast ns" "list_all norm_comp (butlast ns)"
    by (metis butlast_append butlast_snoc, metis in_set_butlastD list_all_iff)
  with * show ?thesis unfolding cleaned_def by blast
qed

lemma cleaned_snoc_dotdot:
  "cleaned r (cs @ [''..'']) \<Longrightarrow> \<not> r \<and> cs @ [''..''] = dotdots (Suc (length cs))"
proof -
  assume "cleaned r (cs @ [''..''])"
  then obtain n ns where *: "cs @ [''..''] = dotdots n @ ns" "list_all norm_comp ns" "r \<longrightarrow> n = 0"
    by (auto simp: cleaned_def)
  have "ns = []"
  proof (rule ccontr)
    assume "ns \<noteq> []"
    with * have "last ns = ''..''"
      by (metis last_appendR last_snoc)
    with * \<open>ns \<noteq> []\<close> show False
      by (metis last_in_set list_all_iff norm_comp_def)
  qed
  with * have "cs @ [''..''] = dotdots n" by simp
  moreover from this have "n = Suc (length cs)"
    by (metis dotdots_def length_append_singleton length_replicate)
  ultimately show ?thesis using * by auto
qed

lemma cleaned_Nil [simp]: "cleaned r []"
  by (auto simp: cleaned_def intro: exI [of _ 0])

lemma cleaned_dotdots [simp]: "cleaned False (dotdots n)"
  by (auto simp: cleaned_def intro: exI [of _ n] exI [of _ "[]"])

lemma clean_comps_cleaned:
  assumes "cleaned r (rev st)" and "\<forall>c \<in> set cs. sep \<notin> set c"
  shows "cleaned r (clean_comps r st cs)"
  using assms
proof (induction r st cs rule: clean_comps.induct)
  case (1 r st)
  then show ?case by simp
next
  case (2 r st c cs)
  consider "c = [] \<or> c = ''.''" | "c = ''..''" "st = []"
    | ts where "c = ''..''" "st = ''..'' # ts"
    | t ts where "c = ''..''" "st = t # ts" "t \<noteq> ''..''"
    | "norm_comp c"
    using 2(7) by (cases st) (auto simp: norm_comp_def)
  then show ?case
  proof cases
    case 1
    with 2 show ?thesis by auto
  next
    case 2
    with "2.IH" "2.prems" show ?thesis
      using cleaned_dotdots [of 1] by (cases r) (auto simp: dotdots_def)
  next
    case 3
    with "2.prems" have "\<not> r \<and> rev ts @ [''..''] = dotdots (Suc (length ts))"
      using cleaned_snoc_dotdot [of r "rev ts"] by simp
    then have "cleaned r (rev (''..'' # st))"
      using 3 cleaned_dotdots [of "Suc (Suc (length ts))"]
      by (simp flip: dotdots_snoc)
    with 3 "2.IH" "2.prems" show ?thesis by simp
  next
    case 4
    with "2.prems" have "cleaned r (rev ts)"
      using cleaned_butlast by simp
    with 4 "2.IH" "2.prems" show ?thesis by simp
  next
    case 5
    with "2.prems" have "cleaned r (rev (c # st))"
      using cleaned_snoc_norm by simp
    with 5 "2.IH" "2.prems" show ?thesis by (simp add: norm_comp_def)
  qed
qed

lemma clean_comps_id: "cleaned r cs \<Longrightarrow> clean_comps r [] cs = cs"
proof -
  assume "cleaned r cs"
  then obtain n ns where *: "cs = dotdots n @ ns" "list_all norm_comp ns" "r \<longrightarrow> n = 0"
    by (auto simp: cleaned_def)
  have "clean_comps r [] (dotdots n) = dotdots n"
    using * clean_comps_dotdots [of 0 n] by (cases r) auto
  with * show ?thesis
    by (simp add: clean_comps_append clean_comps_norm)
qed

lemma cleaned_no_sep: "cleaned r cs \<Longrightarrow> c \<in> set cs \<Longrightarrow> sep \<notin> set c \<and> c \<noteq> [] \<and> c \<noteq> ''.''"
proof -
  assume "cleaned r cs" and c: "c \<in> set cs"
  then obtain n ns where "cs = dotdots n @ ns" "list_all norm_comp ns"
    by (auto simp: cleaned_def)
  with c have "c = ''..'' \<or> norm_comp c"
    by (auto simp: dotdots_def list_all_iff)
  then show ?thesis
    by (auto simp: norm_comp_def sep_def)
qed

section \<open>Component view of the string operations\<close>

definition mk_path :: "bool \<Rightarrow> string list \<Rightarrow> path" where
  "mk_path r cs = (if r then [] # cs else cs)"

definition comps_of :: "string \<Rightarrow> string list" where
  "comps_of p = clean_comps (is_rooted p) [] (split sep p)"

lemma path_of_eq: "path_of p = mk_path (is_rooted p) (comps_of p)"
  by (simp add: path_of_def mk_path_def comps_of_def)

lemma Clean_eq: "Clean p = comps_str (is_rooted p) (comps_of p)"
  by (simp add: Clean_def comps_of_def)

lemma mk_path_append: "mk_path r (cs @ ds) = mk_path r cs @ ds"
  by (simp add: mk_path_def)

lemma mk_path_inj [simp]: "mk_path r cs = mk_path r ds \<longleftrightarrow> cs = ds"
  by (simp add: mk_path_def)

lemma cleaned_comps_of [simp]: "cleaned (is_rooted p) (comps_of p)"
  unfolding comps_of_def
  by (rule clean_comps_cleaned) (auto dest: split_parts_no_sep)

lemma is_rooted_comps_str [simp]: "cleaned r cs \<Longrightarrow> is_rooted (comps_str r cs) = r"
proof (cases "r \<or> cs = []")
  case True
  then show ?thesis by (auto simp: comps_str_def is_rooted_def sep_def)
next
  case False
  assume "cleaned r cs"
  with False obtain c ds where cs: "cs = c # ds" and c: "sep \<notin> set c" "c \<noteq> []"
    by (cases cs) (auto dest: cleaned_no_sep)
  then obtain x xs where "c = x # xs" "x \<noteq> sep"
    by (cases c) auto
  with False cs show ?thesis
    by (cases ds) (simp_all add: comps_str_def is_rooted_def)
qed

lemma comps_of_comps_str [simp]: "cleaned r cs \<Longrightarrow> comps_of (comps_str r cs) = cs"
proof -
  assume c: "cleaned r cs"
  then have no_sep: "\<forall>x \<in> set cs. sep \<notin> set x"
    by (auto dest: cleaned_no_sep)
  have "clean_comps r [] (split sep (comps_str r cs)) = clean_comps r [] cs"
    using no_sep by (cases "cs = []") (auto simp: comps_str_def sep_def split_str_join)
  then show ?thesis
    using c by (simp add: comps_of_def clean_comps_id)
qed

lemma path_of_comps_str [simp]: "cleaned r cs \<Longrightarrow> path_of (comps_str r cs) = mk_path r cs"
  by (simp add: path_of_eq)

lemma path_of_Clean [simp]: "path_of (Clean p) = path_of p"
  by (simp add: Clean_eq path_of_eq)

lemma Clean_Clean [simp]: "Clean (Clean p) = Clean p"
  by (simp add: Clean_eq)

lemma Clean_not_Nil [simp]: "Clean p \<noteq> []"
proof -
  have "str_join [sep] (c # cs) \<noteq> []" if "comps_of p = c # cs" for c cs
    using cleaned_no_sep [OF cleaned_comps_of [of p], of c] that by (cases cs) auto
  then have "comps_of p \<noteq> [] \<Longrightarrow> str_join [sep] (comps_of p) \<noteq> []"
    by (cases "comps_of p") auto
  then show ?thesis by (auto simp: Clean_eq comps_str_def)
qed

lemma split_str_join_concat:
  "es \<noteq> [] \<Longrightarrow> split sep (str_join [sep] es) = concat (map (split sep) es)"
proof (induction es)
  case Nil
  then show ?case by simp
next
  case (Cons e es)
  then show ?case
    by (cases "es = []") (simp_all add: str_join_Cons split_append_sep)
qed

lemma is_rooted_join: "e \<noteq> [] \<Longrightarrow> is_rooted (str_join [sep] (e # es)) = is_rooted e"
  by (cases es; cases e) (simp_all add: is_rooted_def)

text \<open>Joining below a clean directory processes the remaining components from there.\<close>

lemma Join_Clean:
  "Join (Clean d # es) =
     comps_str (is_rooted d)
       (clean_comps (is_rooted d) (rev (comps_of d)) (concat (map (split sep) es)))"
proof -
  have r: "is_rooted (Clean d) = is_rooted d" and c: "comps_of (Clean d) = comps_of d"
    by (simp_all add: Clean_eq)
  have "clean_comps (is_rooted d) [] (split sep (str_join [sep] (Clean d # es))) =
        clean_comps (is_rooted d) (rev (comps_of d)) (concat (map (split sep) es))"
    using c r by (simp add: split_str_join_concat clean_comps_append comps_of_def)
  then show ?thesis
    by (simp add: Clean_eq [of "str_join _ _"] comps_of_def is_rooted_join r)
qed

lemma Join_nonempty: "e \<noteq> [] \<Longrightarrow> Join (e # es) = Clean (str_join [sep] (e # es))"
  by simp

lemma Join_not_Nil: "e \<noteq> [] \<Longrightarrow> Join (e # es) \<noteq> []"
  by simp

declare Join.simps [simp del]

lemma comps_str_append:
  "cs \<noteq> [] \<Longrightarrow> ds \<noteq> [] \<Longrightarrow> comps_str r (cs @ ds) = comps_str r cs @ sep # str_join [sep] ds"
  by (simp add: comps_str_def str_join_append)

end
