(* ===== verification/FileSys.thy ===== *)
theory FileSys
  imports GoPath
begin

text \<open>
  The part of the operating system that the Go packages \<open>os\<close> and \<open>path/filepath\<close> expose to
  PeerVault: a finite tree of directories and regular files, kept as the list of its entries keyed
  by path components.  The current directory and the absolute root always exist.  Failures are those
  of the tree's shape (a missing entry, a file where a directory is needed, a directory where a file
  is needed); permissions, symbolic links, name length limits and full disks are outside the model.
\<close>

section \<open>Entries\<close>

datatype inode = File bytes | Dir

type_synonym fs = "(path \<times> inode) list"

definition is_root :: "path \<Rightarrow> bool" where
  "is_root p \<longleftrightarrow> p = [] \<or> p = [[]]"

definition fs_get :: "fs \<Rightarrow> path \<Rightarrow> inode option" where
  "fs_get fs p = (if is_root p then Some Dir else map_of fs p)"

definition fs_set :: "fs \<Rightarrow> path \<Rightarrow> inode \<Rightarrow> fs" where
  "fs_set fs p i = (if is_root p then fs else AList.update p i fs)"

definition below :: "path \<Rightarrow> path \<Rightarrow> bool" where
  "below p q \<longleftrightarrow> take (length p) q = p"

definition fs_remove :: "fs \<Rightarrow> path \<Rightarrow> fs" where
  "fs_remove fs p = filter (\<lambda>e. \<not> below p (fst e)) fs"

text \<open>Names in a directory, in the order \<open>os.ReadDir\<close> and \<open>filepath.Walk\<close> deliver them.\<close>

definition children :: "fs \<Rightarrow> path \<Rightarrow> string list" where
  "children fs p = sort (map last (filter (\<lambda>q. q \<noteq> [] \<and> butlast q = p) (map fst fs)))"

text \<open>
  A tree: keys are distinct, every entry has a proper name and its parent is a directory.
\<close>

definition fs_wf :: "fs \<Rightarrow> bool" where
  "fs_wf fs \<longleftrightarrow> distinct (map fst fs) \<and>
     (\<forall>p \<in> set (map fst fs).
        \<not> is_root p \<and> norm_comp (last p) \<and> fs_get fs (butlast p) = Some Dir)"

section \<open>System calls\<close>

text \<open>Path resolution: every proper prefix has to be a directory.\<close>

fun stat_at :: "fs \<Rightarrow> path \<Rightarrow> string list \<Rightarrow> errno + inode" where
  "stat_at fs pre [] = (case fs_get fs pre of None \<Rightarrow> Inl ENOENT | Some i \<Rightarrow> Inr i)"
| "stat_at fs pre (c # cs) =
     (case fs_get fs pre of
        None \<Rightarrow> Inl ENOENT
      | Some (File _) \<Rightarrow> Inl ENOTDIR
      | Some Dir \<Rightarrow> stat_at fs (pre @ [c]) cs)"

definition fs_stat :: "fs \<Rightarrow> path \<Rightarrow> errno + inode" where
  "fs_stat fs p = stat_at fs [] p"

text \<open>The empty path names nothing; any other failure carries the path it was called with.\<close>

definition os_err :: "string \<Rightarrow> errno + 'a \<Rightarrow> 'a result" where
  "os_err s r =
     (if s = [] then Inl (PathError ENOENT s)
      else case r of Inl e \<Rightarrow> Inl (PathError e s) | Inr x \<Rightarrow> Inr x)"

definition os_Stat :: "fs \<Rightarrow> string \<Rightarrow> inode result" where
  "os_Stat fs s = os_err s (fs_stat fs (path_of s))"

text \<open>\<open>os.MkdirAll\<close>: make every missing directory of the path.\<close>

fun mkdir_at :: "fs \<Rightarrow> path \<Rightarrow> string list \<Rightarrow> errno + fs" where
  "mkdir_at fs pre [] =
     (case fs_get fs pre of
        None \<Rightarrow> Inr (fs_set fs pre Dir)
      | Some (File _) \<Rightarrow> Inl ENOTDIR
      | Some Dir \<Rightarrow> Inr fs)"
| "mkdir_at fs pre (c # cs) =
     (case fs_get fs pre of
        None \<Rightarrow> mkdir_at (fs_set fs pre Dir) (pre @ [c]) cs
      | Some (File _) \<Rightarrow> Inl ENOTDIR
      | Some Dir \<Rightarrow> mkdir_at fs (pre @ [c]) cs)"

definition os_MkdirAll :: "fs \<Rightarrow> string \<Rightarrow> fs result" where
  "os_MkdirAll fs s = os_err s (mkdir_at fs [] (path_of s))"

text \<open>\<open>os.Create\<close>: open for writing, truncating or creating the file in an existing directory.\<close>

definition fs_create :: "fs \<Rightarrow> path \<Rightarrow> errno + fs" where
  "fs_create fs p =
     (if is_root p then Inl EISDIR
      else case fs_stat fs (butlast p) of
        Inl e \<Rightarrow> Inl e
      | Inr (File _) \<Rightarrow> Inl ENOTDIR
      | Inr Dir \<Rightarrow>
         (case fs_get fs p of
            Some Dir \<Rightarrow> Inl EISDIR
          | _ \<Rightarrow> Inr (fs_set fs p (File []))))"

definition os_Create :: "fs \<Rightarrow> string \<Rightarrow> fs result" where
  "os_Create fs s = os_err s (fs_create fs (path_of s))"

text \<open>Writing to the file just opened for writing replaces its (empty) content.\<close>

definition file_write :: "fs \<Rightarrow> string \<Rightarrow> bytes \<Rightarrow> fs" where
  "file_write fs s b = fs_set fs (path_of s) (File b)"

definition os_WriteFile :: "fs \<Rightarrow> string \<Rightarrow> bytes \<Rightarrow> fs result" where
  "os_WriteFile fs s b =
     (case os_Create fs s of Inl e \<Rightarrow> Inl e | Inr fs' \<Rightarrow> Inr (file_write fs' s b))"

text \<open>Opening and reading a whole file; a directory opens but cannot be read.\<close>

definition os_ReadFile :: "fs \<Rightarrow> string \<Rightarrow> bytes result" where
  "os_ReadFile fs s =
     (case os_Stat fs s of
        Inl e \<Rightarrow> Inl e
      | Inr Dir \<Rightarrow> Inl (PathError EISDIR s)
      | Inr (File b) \<Rightarrow> Inr b)"

text \<open>\<open>os.RemoveAll\<close>: a missing path is no error; a path ending in \<open>.\<close> is refused.\<close>

definition ends_with_dot :: "string \<Rightarrow> bool" where
  "ends_with_dot s \<longleftrightarrow> s = ''.'' \<or> (length s \<ge> 2 \<and> drop (length s - 2) s = ''/.'')"

definition os_RemoveAll :: "fs \<Rightarrow> string \<Rightarrow> fs result" where
  "os_RemoveAll fs s =
     (if s = [] then Inr fs
      else if ends_with_dot s then Inl (PathError EINVAL s)
      else case fs_stat fs (path_of s) of
        Inl ENOENT \<Rightarrow> Inr fs
      | Inl e \<Rightarrow> Inl (PathError e s)
      | Inr _ \<Rightarrow> Inr (fs_remove fs (path_of s)))"

text \<open>\<open>os.Remove\<close>: a file or an empty directory.\<close>

definition os_Remove :: "fs \<Rightarrow> string \<Rightarrow> fs result" where
  "os_Remove fs s =
     (case os_Stat fs s of
        Inl e \<Rightarrow> Inl e
      | Inr (File _) \<Rightarrow> Inr (fs_remove fs (path_of s))
      | Inr Dir \<Rightarrow> (if children fs (path_of s) = [] then Inr (fs_remove fs (path_of s))
                    else Inl (PathError ENOTEMPTY s)))"

definition os_ReadDir :: "fs \<Rightarrow> string \<Rightarrow> (string \<times> inode option) list result" where
  "os_ReadDir fs s =
     (case os_Stat fs s of
        Inl e \<Rightarrow> Inl e
      | Inr (File _) \<Rightarrow> Inl (PathError ENOTDIR s)
      | Inr Dir \<Rightarrow>
         Inr (map (\<lambda>n. (n, fs_get fs (path_of s @ [n]))) (children fs (path_of s))))"

section \<open>Reading back updates\<close>

lemma is_root_Nil [simp]: "is_root []"
  by (simp add: is_root_def)

lemma fs_get_root [simp]: "is_root p \<Longrightarrow> fs_get fs p = Some Dir"
  by (simp add: fs_get_def)

lemma fs_get_set [fs_simps]:
  "\<not> is_root p \<Longrightarrow> fs_get (fs_set fs p i) q = (if q = p then Some i else fs_get fs q)"
  by (auto simp: fs_get_def fs_set_def update_conv')

lemma fs_get_remove [fs_simps]:
  "fs_get (fs_remove fs p) q = (if is_root q then Some Dir else if below p q then None else fs_get fs q)"
  by (simp add: fs_get_def fs_remove_def map_of_filter_keys_fst [where P = "\<lambda>k. \<not> below p k"])

lemma below_refl [simp]: "below p p"
  by (simp add: below_def)

lemma below_append [simp]: "below p (p @ q)"
  by (simp add: below_def)

lemma below_iff: "below p q \<longleftrightarrow> (\<exists>r. q = p @ r)"
  by (metis below_def append_eq_conv_conj append_take_drop_id)

lemma below_trans: "below p q \<Longrightarrow> below q r \<Longrightarrow> below p r"
  by (auto simp: below_iff)

lemma below_butlast: "below p (butlast q) \<Longrightarrow> q \<noteq> [] \<Longrightarrow> below p q"
  by (metis below_append below_trans append_butlast_last_id)

lemma below_append_same [simp]: "below (p @ q) (p @ r) \<longleftrightarrow> below q r"
  by (auto simp: below_iff)

lemma fs_get_key: "\<not> is_root p \<Longrightarrow> fs_get fs p = Some i \<Longrightarrow> p \<in> set (map fst fs)"
  by (auto simp: fs_get_def dest!: map_of_SomeD intro: rev_image_eqI)

lemma fs_key_get: "fs_wf fs \<Longrightarrow> p \<in> set (map fst fs) \<Longrightarrow> \<exists>i. fs_get fs p = Some i"
  by (auto simp: fs_wf_def fs_get_def simp flip: map_of_eq_None_iff [unfolded not_def]
      dest: weak_map_of_SomeI)

section \<open>Well-formed trees\<close>

lemma fs_wf_parent:
  "fs_wf fs \<Longrightarrow> fs_get fs p = Some i \<Longrightarrow> \<not> is_root p \<Longrightarrow> fs_get fs (butlast p) = Some Dir"
  using fs_get_key unfolding fs_wf_def by blast

lemma is_root_butlast: "is_root p \<Longrightarrow> is_root (butlast p)"
  by (auto simp: is_root_def)

lemma fs_wf_prefix:
  "fs_wf fs \<Longrightarrow> fs_get fs (p @ q) = Some i \<Longrightarrow> q \<noteq> [] \<Longrightarrow> fs_get fs p = Some Dir"
proof (induction q arbitrary: i rule: rev_induct)
  case Nil
  then show ?case by simp
next
  case (snoc x q)
  have *: "fs_get fs (p @ q) = Some Dir"
  proof (cases "is_root (p @ q @ [x])")
    case True
    then have "is_root (p @ q)"
      using is_root_butlast [of "p @ q @ [x]"] by (simp add: butlast_append)
    then show ?thesis by simp
  next
    case False
    with snoc.prems fs_wf_parent [of fs "p @ q @ [x]" i] show ?thesis
      by (simp add: butlast_append)
  qed
  show ?case
  proof (cases "q = []")
    case True
    with * show ?thesis by simp
  next
    case False
    from snoc.IH [OF snoc.prems(1) * False] show ?thesis .
  qed
qed

lemma fs_wf_set:
  assumes "fs_wf fs" and "\<not> is_root p" and "fs_get fs (butlast p) = Some Dir"
    and "i = Dir \<or> fs_get fs p \<noteq> Some Dir" and "norm_comp (last p)"
  shows "fs_wf (fs_set fs p i)"
proof -
  let ?f = "fs_set fs p i"
  have keys: "set (map fst ?f) = insert p (set (map fst fs))"
    using assms(2) by (simp add: fs_set_def dom_update)
  have "\<not> is_root q \<and> norm_comp (last q) \<and> fs_get ?f (butlast q) = Some Dir"
    if "q \<in> set (map fst ?f)" for q
  proof (cases "q = p")
    case True
    have "butlast p \<noteq> p"
      using assms(2) by (cases p rule: rev_cases) auto
    with True assms(2,3,5) show ?thesis by (simp add: fs_get_set)
  next
    case False
    with that keys have q: "q \<in> set (map fst fs)" by simp
    with assms(1) have "\<not> is_root q" "norm_comp (last q)" "fs_get fs (butlast q) = Some Dir"
      by (auto simp: fs_wf_def)
    with assms(2,4) show ?thesis by (auto simp: fs_get_set)
  qed
  moreover have "distinct (map fst ?f)"
    using assms(1,2) by (simp add: fs_set_def fs_wf_def distinct_update)
  ultimately show ?thesis by (auto simp: fs_wf_def)
qed

lemma fs_wf_remove:
  assumes "fs_wf fs"
  shows "fs_wf (fs_remove fs p)"
proof -
  have "\<not> is_root q \<and> norm_comp (last q) \<and> fs_get (fs_remove fs p) (butlast q) = Some Dir"
    if "q \<in> set (map fst (fs_remove fs p))" for q
  proof -
    from that have q: "q \<in> set (map fst fs)" "\<not> below p q"
      by (auto simp: fs_remove_def)
    with assms have nr: "\<not> is_root q" and "norm_comp (last q)"
      and par: "fs_get fs (butlast q) = Some Dir"
      by (auto simp: fs_wf_def)
    moreover from q nr have "\<not> below p (butlast q)"
      using below_butlast [of p q] by (auto simp: is_root_def)
    ultimately show ?thesis by (simp add: fs_get_remove)
  qed
  moreover have "distinct (map fst (fs_remove fs p))"
    using assms by (simp add: fs_remove_def fs_wf_def distinct_filter_keys)
  ultimately show ?thesis by (auto simp: fs_wf_def)
qed

section \<open>Path resolution\<close>

lemma stat_at_dirs:
  "(\<forall>n < length cs. fs_get fs (pre @ take n cs) = Some Dir) \<Longrightarrow>
   stat_at fs pre cs = (case fs_get fs (pre @ cs) of None \<Rightarrow> Inl ENOENT | Some i \<Rightarrow> Inr i)"
proof (induction cs arbitrary: pre)
  case Nil
  then show ?case by simp
next
  case (Cons c cs)
  have "fs_get fs pre = Some Dir"
    using Cons.prems by (metis append_Nil2 length_greater_0_conv list.discI take_0)
  moreover have "\<forall>n < length cs. fs_get fs ((pre @ [c]) @ take n cs) = Some Dir"
    using Cons.prems by (auto dest: spec [of _ "Suc _"])
  ultimately show ?case
    using Cons.IH [of "pre @ [c]"] by simp
qed

lemma stat_at_Inr: "stat_at fs pre cs = Inr i \<Longrightarrow> fs_get fs (pre @ cs) = Some i"
  by (induction fs pre cs rule: stat_at.induct) (auto split: option.splits inode.splits)

lemma fs_stat_Inr: "fs_stat fs p = Inr i \<Longrightarrow> fs_get fs p = Some i"
  using stat_at_Inr [of fs "[]" p i] by (simp add: fs_stat_def)

lemma fs_stat_parent_dir:
  assumes "fs_wf fs" and "fs_get fs p = Some Dir"
  shows "fs_stat fs (p @ [c]) = (case fs_get fs (p @ [c]) of None \<Rightarrow> Inl ENOENT | Some i \<Rightarrow> Inr i)"
proof -
  have "fs_get fs ([] @ take n (p @ [c])) = Some Dir" if "n < length (p @ [c])" for n
  proof (cases "n = length p")
    case True
    with assms show ?thesis by simp
  next
    case False
    with that have n: "n < length p" by simp
    then have "fs_get fs (take n p @ drop n p) = Some Dir" "drop n p \<noteq> []"
      using assms by auto
    from fs_wf_prefix [OF assms(1) this] n show ?thesis by simp
  qed
  then show ?thesis
    using stat_at_dirs [of "p @ [c]" fs "[]"] by (simp add: fs_stat_def)
qed

lemma fs_stat_get:
  assumes "fs_wf fs" and "fs_get fs p = Some i"
  shows "fs_stat fs p = Inr i"
proof (cases "is_root p")
  case True
  with assms have "i = Dir" by simp
  with True show ?thesis
    by (auto simp: fs_stat_def is_root_def fs_get_def)
next
  case False
  then obtain q c where p: "p = q @ [c]"
    by (metis append_butlast_last_id is_root_Nil)
  with False assms fs_wf_parent have "fs_get fs q = Some Dir" by fastforce
  with assms p show ?thesis by (simp add: fs_stat_parent_dir)
qed

section \<open>Making directories and files\<close>

definition no_file :: "fs \<Rightarrow> path \<Rightarrow> bool" where
  "no_file fs p \<longleftrightarrow> fs_get fs p = None \<or> fs_get fs p = Some Dir"

text \<open>No prefix of the path, nor the path itself, is a regular file.\<close>

definition dir_route :: "fs \<Rightarrow> path \<Rightarrow> string list \<Rightarrow> bool" where
  "dir_route fs pre cs \<longleftrightarrow> (\<forall>n \<le> length cs. no_file fs (pre @ take n cs))"

lemma no_file_set_Dir: "no_file fs p \<Longrightarrow> \<not> is_root q \<Longrightarrow> no_file (fs_set fs q Dir) p"
  by (auto simp: no_file_def fs_get_set)

lemma dir_route_Cons:
  "dir_route fs pre (c # cs) \<longleftrightarrow> no_file fs pre \<and> dir_route fs (pre @ [c]) cs"
proof
  assume "dir_route fs pre (c # cs)"
  then show "no_file fs pre \<and> dir_route fs (pre @ [c]) cs"
    unfolding dir_route_def by (auto dest: spec [of _ 0] spec [of _ "Suc _"])
next
  assume *: "no_file fs pre \<and> dir_route fs (pre @ [c]) cs"
  show "dir_route fs pre (c # cs)"
    unfolding dir_route_def
  proof (intro allI impI)
    fix n
    assume "n \<le> length (c # cs)"
    with * show "no_file fs (pre @ take n (c # cs))"
      by (cases n) (auto simp: dir_route_def)
  qed
qed

lemma dir_route_Nil [simp]: "dir_route fs pre [] \<longleftrightarrow> no_file fs pre"
  by (simp add: dir_route_def)

lemma dir_route_set_Dir:
  "dir_route fs pre cs \<Longrightarrow> \<not> is_root q \<Longrightarrow> dir_route (fs_set fs q Dir) pre cs"
  by (simp add: dir_route_def no_file_set_Dir)

text \<open>On such a route \<open>mkdir\<close> succeeds, makes every prefix a directory and changes nothing else.\<close>

definition on_route :: "path \<Rightarrow> string list \<Rightarrow> path \<Rightarrow> bool" where
  "on_route pre cs q \<longleftrightarrow> below pre q \<and> below q (pre @ cs)"

lemma on_route_Nil [simp]: "on_route pre [] q \<longleftrightarrow> q = pre"
  by (auto simp: on_route_def below_iff)

lemma on_route_Cons: "on_route pre (c # cs) q \<longleftrightarrow> q = pre \<or> on_route (pre @ [c]) cs q"
proof -
  have "below pre q \<and> below q (pre @ c # cs) \<longleftrightarrow> q = pre \<or> below (pre @ [c]) q \<and> below q (pre @ c # cs)"
    by (auto simp: below_iff append_eq_append_conv2 append_eq_Cons_conv Cons_eq_append_conv)
  then show ?thesis by (simp add: on_route_def)
qed

text \<open>Paths all of whose components are proper names.\<close>

definition path_ok :: "path \<Rightarrow> bool" where
  "path_ok p \<longleftrightarrow> (case p of [] \<Rightarrow> True | c # cs \<Rightarrow> (c = [] \<or> norm_comp c) \<and> list_all norm_comp cs)"

lemma path_ok_prefix: "path_ok (p @ q) \<Longrightarrow> path_ok p"
  by (cases p) (auto simp: path_ok_def)

lemma path_ok_last: "path_ok p \<Longrightarrow> \<not> is_root p \<Longrightarrow> norm_comp (last p)"
  by (cases p) (auto simp: path_ok_def is_root_def list_all_iff split: if_splits)

lemma path_ok_append: "path_ok p \<Longrightarrow> list_all norm_comp q \<Longrightarrow> p \<noteq> [] \<Longrightarrow> path_ok (p @ q)"
  by (cases p) (auto simp: path_ok_def)

lemma path_ok_mk_path [simp]: "list_all norm_comp cs \<Longrightarrow> path_ok (mk_path r cs)"
  by (cases cs) (auto simp: path_ok_def mk_path_def)

lemma mkdir_at_ok:
  assumes "dir_route fs pre cs" and "fs_wf fs" and "path_ok (pre @ cs)"
    and "is_root pre \<or> fs_get fs (butlast pre) = Some Dir"
  shows "\<exists>fs'. mkdir_at fs pre cs = Inr fs' \<and> fs_wf fs' \<and>
           (\<forall>q. fs_get fs' q = (if on_route pre cs q then Some Dir else fs_get fs q))"
  using assms
proof (induction cs arbitrary: fs pre)
  case Nil
  then have "fs_get fs pre = None \<or> fs_get fs pre = Some Dir"
    by (simp add: no_file_def)
  then show ?case
  proof
    assume none: "fs_get fs pre = None"
    then have nr: "\<not> is_root pre" by auto
    with Nil none show ?thesis
      by (auto simp: fs_get_set intro!: fs_wf_set path_ok_last)
  next
    assume "fs_get fs pre = Some Dir"
    with Nil show ?thesis by auto
  qed
next
  case (Cons c cs)
  from Cons.prems(1) have pre: "fs_get fs pre = None \<or> fs_get fs pre = Some Dir"
    and route: "dir_route fs (pre @ [c]) cs"
    by (auto simp: dir_route_Cons no_file_def)
  from pre show ?case
  proof
    assume none: "fs_get fs pre = None"
    then have nr: "\<not> is_root pre" by auto
    let ?f = "fs_set fs pre Dir"
    have "fs_wf ?f"
      using Cons.prems nr by (auto intro!: fs_wf_set path_ok_last dest: path_ok_prefix)
    moreover have "fs_get ?f (butlast (pre @ [c])) = Some Dir"
      using nr by (simp add: fs_get_set)
    moreover have "dir_route ?f (pre @ [c]) cs"
      using route nr by (rule dir_route_set_Dir)
    ultimately obtain fs' where "mkdir_at ?f (pre @ [c]) cs = Inr fs'" "fs_wf fs'"
      "\<forall>q. fs_get fs' q = (if on_route (pre @ [c]) cs q then Some Dir else fs_get ?f q)"
      using Cons.IH [of ?f "pre @ [c]"] Cons.prems(3) by auto
    with none nr show ?thesis
      by (auto simp: on_route_Cons fs_get_set)
  next
    assume dir: "fs_get fs pre = Some Dir"
    then obtain fs' where "mkdir_at fs (pre @ [c]) cs = Inr fs'" "fs_wf fs'"
      "\<forall>q. fs_get fs' q = (if on_route (pre @ [c]) cs q then Some Dir else fs_get fs q)"
      using Cons.IH [of fs "pre @ [c]"] Cons.prems(2,3) route by auto
    with dir show ?thesis
      by (auto simp: on_route_Cons)
  qed
qed

text \<open>A regular file on the route is the only way to fail.\<close>

lemma mkdir_at_Inr_route: "mkdir_at fs pre cs = Inr fs' \<Longrightarrow> dir_route fs pre cs"
proof (induction fs pre cs rule: mkdir_at.induct)
  case (1 fs pre)
  then show ?case
    by (auto simp: no_file_def split: option.splits inode.splits)
next
  case (2 fs pre c cs)
  show ?case
  proof (cases "fs_get fs pre")
    case None
    then have "\<not> is_root pre" by auto
    with 2 None have "dir_route (fs_set fs pre Dir) (pre @ [c]) cs" by simp
    moreover have "no_file fs q" if "no_file (fs_set fs pre Dir) q" for q
      using that \<open>\<not> is_root pre\<close> None by (auto simp: no_file_def fs_get_set split: if_splits)
    ultimately have "dir_route fs (pre @ [c]) cs"
      unfolding dir_route_def by blast
    then show ?thesis
      using None by (simp add: dir_route_Cons no_file_def)
  next
    case (Some i)
    with 2 show ?thesis
      by (cases i) (auto simp: dir_route_Cons no_file_def)
  qed
qed

lemma fs_create_ok:
  assumes "fs_wf fs" and "\<not> is_root p" and "fs_get fs (butlast p) = Some Dir"
    and "fs_get fs p \<noteq> Some Dir"
  shows "fs_create fs p = Inr (fs_set fs p (File []))"
proof -
  have "fs_stat fs (butlast p) = Inr Dir"
    using assms by (simp add: fs_stat_get)
  with assms(2,4) show ?thesis
    by (auto simp: fs_create_def split: option.splits inode.splits)
qed

lemma fs_set_set [simp]: "fs_set (fs_set fs p i) p j = fs_set fs p j"
  by (simp add: fs_set_def)

section \<open>Removing\<close>

lemma clean_not_dot:
  assumes "cleaned r cs" and "cs \<noteq> []"
  shows "\<not> ends_with_dot (comps_str r cs)"
proof
  let ?p = "comps_str r cs"
  assume "ends_with_dot ?p"
  then have "last (split sep ?p) = ''.''"
  proof (cases "?p = ''.''")
    case False
    with \<open>ends_with_dot ?p\<close> have "?p = take (length ?p - 2) ?p @ ''/.''"
      unfolding ends_with_dot_def by (metis append_take_drop_id)
    then show ?thesis
      using split_append_sep [of sep "take (length ?p - 2) ?p" "''.''"] by (simp add: sep_def)
  qed (simp add: sep_def)
  moreover have "\<forall>c \<in> set cs. sep \<notin> set c"
    using cleaned_no_sep [OF assms(1)] by blast
  then have "last (split sep ?p) = last cs"
    using assms(2) split_str_join [of cs sep] split_append_sep [of sep "[]" "str_join [sep] cs"]
    by (cases r) (simp_all add: comps_str_def)
  ultimately show False
    using cleaned_no_sep [OF assms(1), of "last cs"] assms(2) by simp
qed

lemma stat_at_missing:
  "dir_route fs pre cs \<Longrightarrow> fs_get fs (pre @ cs @ [c]) = None \<Longrightarrow> stat_at fs pre (cs @ [c]) = Inl ENOENT"
proof (induction cs arbitrary: pre)
  case Nil
  then show ?case by (auto simp: no_file_def)
next
  case (Cons x cs)
  then show ?case by (auto simp: dir_route_Cons no_file_def)
qed

lemma dir_route_below: "dir_route fs [] p \<longleftrightarrow> (\<forall>q. below q p \<longrightarrow> no_file fs q)"
proof -
  have "below q p \<longleftrightarrow> (\<exists>n \<le> length p. q = take n p)" for q
    by (auto simp: below_iff min_def intro!: exI [of _ "length q"]) (metis append_take_drop_id)
  then show ?thesis by (auto simp: dir_route_def)
qed

text \<open>
  In a tree whose directories lead to the path, \<open>os.RemoveAll\<close> succeeds and exactly the entries
  below the path are gone.
\<close>

lemma os_RemoveAll_get:
  assumes "fs_wf fs" and "p \<noteq> []" and "\<not> ends_with_dot p" and "path_of p = q @ [c]"
    and "\<not> is_root (q @ [c])" and "dir_route fs [] q"
  obtains fs' where "os_RemoveAll fs p = Inr fs'" and "fs' = fs \<or> fs' = fs_remove fs (path_of p)"
    and "\<And>x. fs_get fs' x = (if below (path_of p) x then None else fs_get fs x)"
proof (cases "fs_get fs (path_of p)")
  case None
  then have "fs_stat fs (path_of p) = Inl ENOENT"
    using stat_at_missing [of fs "[]" q c] assms(4,6) by (simp add: fs_stat_def)
  moreover have "fs_get fs x = None" if "below (path_of p) x" for x
    using that None fs_wf_prefix [OF assms(1), of "path_of p"]
    by (cases "fs_get fs x") (fastforce simp: below_iff)+
  ultimately show ?thesis
    using that [of fs] assms(2,3) by (auto simp: os_RemoveAll_def)
next
  case (Some i)
  have "\<not> is_root x" if "below (path_of p) x" for x
    using that assms(4,5) by (auto simp: below_iff is_root_def append_eq_Cons_conv)
  then have "fs_get (fs_remove fs (path_of p)) x = (if below (path_of p) x then None else fs_get fs x)" for x
    by (auto simp: fs_get_remove)
  then show ?thesis
    using that [of "fs_remove fs (path_of p)"] fs_stat_get [OF assms(1) Some] assms(2,3)
    by (simp add: os_RemoveAll_def)
qed

text \<open>The directory of a clean path is the path without its last component.\<close>

lemma comps_of_sep: "x \<noteq> [] \<Longrightarrow> path_of (x @ [sep]) = path_of x"
  using split_append_sep [of sep x "[]"]
  by (auto simp: path_of_def is_rooted_def clean_comps_append split: list.split)

lemma upto_sep:
  assumes "sep \<notin> set h"
  shows "rev (dropWhile (\<lambda>c. c \<noteq> sep) (rev (x @ sep # h))) = x @ [sep]"
    and "rev (dropWhile (\<lambda>c. c \<noteq> sep) (rev h)) = []"
  using assms by (auto simp: dropWhile_append3)

text \<open>The directory of a name directly below the root or the working directory, and of a longer path.\<close>

lemma Dir_of_single:
  assumes "sep \<notin> set h"
  shows "Dir_of ((if r then [sep] else []) @ h) = Clean (if r then [sep] else [])"
  using upto_sep(1) [OF assms, of "[]"] arg_cong [OF upto_sep(2) [OF assms], of Clean]
  by (simp add: Dir_of_def del: rev_is_Nil_conv dropWhile_eq_Nil_conv)

lemma Dir_of_longer:
  assumes "sep \<notin> set h"
  shows "Dir_of (x @ sep # h) = Clean (x @ [sep])"
  using upto_sep(1) [OF assms, of x] unfolding Dir_of_def by metis

lemma Dir_of_path:
  assumes "Clean p = p" and "path_of p = d @ [h]" and "norm_comp h"
  shows "path_of (Dir_of p) = d" and "Dir_of p \<noteq> []" and "\<not> is_root d \<Longrightarrow> \<not> ends_with_dot (Dir_of p)"
proof -
  let ?r = "is_rooted p"
  have h: "h \<noteq> []" "sep \<notin> set h"
    using assms(3) by (auto simp: norm_comp_def)
  have "mk_path ?r (comps_of p) = d @ [h]"
    using assms(2) by (simp add: path_of_eq)
  then obtain cs where cs: "comps_of p = cs @ [h]" "d = mk_path ?r cs"
    using h(1) by (cases "comps_of p" rule: rev_cases) (auto simp: mk_path_def split: if_splits)
  have cl: "cleaned ?r cs"
    using cleaned_butlast [of ?r cs h] cleaned_comps_of [of p] cs(1) assms(3) by (auto simp: norm_comp_def)
  have p: "p = comps_str ?r (cs @ [h])"
    using assms(1) cs(1) by (simp add: Clean_eq)
  show path: "path_of (Dir_of p) = d"
  proof (cases "cs = []")
    case True
    moreover have "comps_str r [h] = (if r then [sep] else []) @ h" for r
      by (simp add: comps_str_def)
    ultimately have "p = (if ?r then [sep] else []) @ h"
      using p by (metis append_Nil)
    then have "Dir_of p = Clean (if ?r then [sep] else [])"
      using Dir_of_single [OF h(2)] by metis
    moreover have "path_of (if r then [sep] else []) = mk_path r []" for r
      by (simp add: path_of_def mk_path_def is_rooted_def)
    ultimately show ?thesis
      using True cs(2) by simp
  next
    case False
    then have "p = comps_str ?r cs @ sep # h"
      using p comps_str_append [of cs "[h]" ?r] by simp
    then have "Dir_of p = Clean (comps_str ?r cs @ [sep])"
      using Dir_of_longer [OF h(2)] by metis
    moreover have "comps_str ?r cs \<noteq> []"
      using Clean_not_Nil [of "comps_str ?r cs"] cl by (simp add: Clean_eq)
    ultimately show ?thesis
      using cs(2) cl by (simp add: comps_of_sep)
  qed
  show "Dir_of p \<noteq> []"
    by (simp add: Dir_of_def)
  show "\<not> ends_with_dot (Dir_of p)" if "\<not> is_root d"
  proof -
    let ?x = "rev (dropWhile (\<lambda>c. c \<noteq> sep) (rev p))"
    have "path_of ?x = d"
      using path by (simp add: Dir_of_def)
    with that have "comps_of ?x \<noteq> []"
      by (auto simp: path_of_eq mk_path_def is_root_def split: if_splits)
    then show ?thesis
      by (simp add: Dir_of_def Clean_eq clean_not_dot)
  qed
qed

end
