(* ===== verification/Config.thy ===== *)
theory Config
  imports GoTime FileSys
begin

text \<open>
  The configuration (\<open>cmd/peervault/config.go\<close>) and the logger's level (\<open>internal/logger\<close>).
  The file is read by a YAML library, which is a parameter; the flags are given as parsed values,
  present exactly when they were set.
\<close>

record Config =
  cfg_ListenAddr :: string
  cfg_AdvertiseAddr :: string
  cfg_Bootstrap :: "string list"
  cfg_Interactive :: bool
  cfg_Demo :: bool
  cfg_EncKey :: string
  cfg_DetectPublicIP :: bool
  cfg_Verbose :: bool
  cfg_Debug :: bool
  cfg_MetricsAddr :: string
  cfg_DiscoverLocal :: bool
  cfg_DiscoverPex :: bool
  cfg_QuotaSize :: string
  cfg_LogLevel :: string
  cfg_FetchTimeout :: int
  cfg_PexInterval :: int
  cfg_GCInterval :: int
  cfg_GCDelay :: int

definition DefaultConfig :: Config where
  "DefaultConfig =
     \<lparr>cfg_ListenAddr = '':3000'', cfg_AdvertiseAddr = [], cfg_Bootstrap = [], cfg_Interactive = False,
      cfg_Demo = False, cfg_EncKey = [], cfg_DetectPublicIP = False, cfg_Verbose = False, cfg_Debug = False,
      cfg_MetricsAddr = [], cfg_DiscoverLocal = False, cfg_DiscoverPex = False, cfg_QuotaSize = [],
      cfg_LogLevel = ''info'', cfg_FetchTimeout = 5 * sec, cfg_PexInterval = 5 * 60 * sec,
      cfg_GCInterval = 3600 * sec, cfg_GCDelay = 5 * 60 * sec\<rparr>"

text \<open>The environment, as \<open>os.LookupEnv\<close> sees it.\<close>

type_synonym environ = "string \<Rightarrow> string option"

definition env_true :: "string \<Rightarrow> bool" where
  "env_true v \<longleftrightarrow> ToLower v = ''true'' \<or> v = ''1''"

definition addr_list :: "string \<Rightarrow> string list" where
  "addr_list v = map TrimSpace (split (CHR '','') v)"

definition env_str :: "environ \<Rightarrow> string \<Rightarrow> string \<Rightarrow> string" where
  "env_str env name cur = (case env name of Some v \<Rightarrow> v | None \<Rightarrow> cur)"

definition env_bool :: "environ \<Rightarrow> string \<Rightarrow> bool \<Rightarrow> bool" where
  "env_bool env name cur = (case env name of Some v \<Rightarrow> env_true v | None \<Rightarrow> cur)"

definition env_dur :: "environ \<Rightarrow> string \<Rightarrow> int \<Rightarrow> int" where
  "env_dur env name cur =
     (case env name of
        Some v \<Rightarrow> (case ParseDuration v of Some d \<Rightarrow> d | None \<Rightarrow> cur)
      | None \<Rightarrow> cur)"

definition LoadFromEnv :: "environ \<Rightarrow> Config \<Rightarrow> Config" where
  "LoadFromEnv env c =
     \<lparr>cfg_ListenAddr = env_str env ''PEERVAULT_LISTEN'' (cfg_ListenAddr c),
      cfg_AdvertiseAddr = env_str env ''PEERVAULT_ADVERTISE'' (cfg_AdvertiseAddr c),
      cfg_Bootstrap = (case env ''PEERVAULT_BOOTSTRAP'' of Some v \<Rightarrow> addr_list v | None \<Rightarrow> cfg_Bootstrap c),
      cfg_Interactive = env_bool env ''PEERVAULT_INTERACTIVE'' (cfg_Interactive c),
      cfg_Demo = env_bool env ''PEERVAULT_DEMO'' (cfg_Demo c),
      cfg_EncKey = (case env ''PEERVAULT_ENC_KEY'' of Some v \<Rightarrow> v | None \<Rightarrow> env_str env ''PEERVAULT_KEY'' (cfg_EncKey c)),
      cfg_DetectPublicIP = env_bool env ''PEERVAULT_PUBLIC_IP'' (cfg_DetectPublicIP c),
      cfg_Verbose = env_bool env ''PEERVAULT_VERBOSE'' (cfg_Verbose c),
      cfg_Debug = env_bool env ''PEERVAULT_DEBUG'' (cfg_Debug c),
      cfg_MetricsAddr = env_str env ''PEERVAULT_METRICS'' (cfg_MetricsAddr c),
      cfg_DiscoverLocal = env_bool env ''PEERVAULT_DISCOVER_LOCAL'' (cfg_DiscoverLocal c),
      cfg_DiscoverPex = env_bool env ''PEERVAULT_DISCOVER_PEX'' (cfg_DiscoverPex c),
      cfg_QuotaSize = env_str env ''PEERVAULT_QUOTA'' (cfg_QuotaSize c),
      cfg_LogLevel = env_str env ''PEERVAULT_LOG_LEVEL'' (cfg_LogLevel c),
      cfg_FetchTimeout = env_dur env ''PEERVAULT_FETCH_TIMEOUT'' (cfg_FetchTimeout c),
      cfg_PexInterval = env_dur env ''PEERVAULT_PEX_INTERVAL'' (cfg_PexInterval c),
      cfg_GCInterval = env_dur env ''PEERVAULT_GC_INTERVAL'' (cfg_GCInterval c),
      cfg_GCDelay = env_dur env ''PEERVAULT_GC_DELAY'' (cfg_GCDelay c)\<rparr>"

text \<open>The flags that were set, with their values.\<close>

record Flags =
  fl_config :: "string option"
  fl_addr :: "string option"
  fl_advertise :: "string option"
  fl_bootstrap :: "string option"
  fl_interactive :: "bool option"
  fl_demo :: "bool option"
  fl_key :: "string option"
  fl_public_ip :: "bool option"
  fl_verbose :: "bool option"
  fl_debug :: "bool option"
  fl_metrics :: "string option"
  fl_discover_local :: "bool option"
  fl_discover_pex :: "bool option"
  fl_quota :: "string option"
  fl_log_level :: "string option"
  fl_fetch_timeout :: "int option"
  fl_pex_interval :: "int option"
  fl_gc_interval :: "int option"
  fl_gc_delay :: "int option"

definition no_flags :: Flags where
  "no_flags =
     \<lparr>fl_config = None, fl_addr = None, fl_advertise = None, fl_bootstrap = None, fl_interactive = None,
      fl_demo = None, fl_key = None, fl_public_ip = None, fl_verbose = None, fl_debug = None, fl_metrics = None,
      fl_discover_local = None, fl_discover_pex = None, fl_quota = None, fl_log_level = None,
      fl_fetch_timeout = None, fl_pex_interval = None, fl_gc_interval = None, fl_gc_delay = None\<rparr>"

definition set_by :: "'a option \<Rightarrow> 'a \<Rightarrow> 'a" where
  "set_by f cur = (case f of Some v \<Rightarrow> v | None \<Rightarrow> cur)"

definition apply_flags :: "Flags \<Rightarrow> Config \<Rightarrow> Config" where
  "apply_flags f c =
     \<lparr>cfg_ListenAddr = set_by (fl_addr f) (cfg_ListenAddr c),
      cfg_AdvertiseAddr = set_by (fl_advertise f) (cfg_AdvertiseAddr c),
      cfg_Bootstrap = set_by (map_option addr_list (fl_bootstrap f)) (cfg_Bootstrap c),
      cfg_Interactive = set_by (fl_interactive f) (cfg_Interactive c),
      cfg_Demo = set_by (fl_demo f) (cfg_Demo c),
      cfg_EncKey = set_by (fl_key f) (cfg_EncKey c),
      cfg_DetectPublicIP = set_by (fl_public_ip f) (cfg_DetectPublicIP c),
      cfg_Verbose = set_by (fl_verbose f) (cfg_Verbose c),
      cfg_Debug = set_by (fl_debug f) (cfg_Debug c),
      cfg_MetricsAddr = set_by (fl_metrics f) (cfg_MetricsAddr c),
      cfg_DiscoverLocal = set_by (fl_discover_local f) (cfg_DiscoverLocal c),
      cfg_DiscoverPex = set_by (fl_discover_pex f) (cfg_DiscoverPex c),
      cfg_QuotaSize = set_by (fl_quota f) (cfg_QuotaSize c),
      cfg_LogLevel = set_by (fl_log_level f) (cfg_LogLevel c),
      cfg_FetchTimeout = set_by (fl_fetch_timeout f) (cfg_FetchTimeout c),
      cfg_PexInterval = set_by (fl_pex_interval f) (cfg_PexInterval c),
      cfg_GCInterval = set_by (fl_gc_interval f) (cfg_GCInterval c),
      cfg_GCDelay = set_by (fl_gc_delay f) (cfg_GCDelay c)\<rparr>"

text \<open>\<open>yaml.Unmarshal\<close> into the defaults: the fields of the document, or an error.\<close>

type_synonym yaml = "bytes \<Rightarrow> Config \<Rightarrow> Config result"

definition LoadConfig :: "yaml \<Rightarrow> fs \<Rightarrow> environ \<Rightarrow> Flags \<Rightarrow> Config result" where
  "LoadConfig Y fs env f =
     (let configPath = (case fl_config f of Some p \<Rightarrow> p | None \<Rightarrow> []);
          file = (if configPath \<noteq> [] then
                    (case os_ReadFile fs configPath of
                       Inl e \<Rightarrow> Inl (Wrap ''failed to read config file: %w'' e)
                     | Inr data \<Rightarrow>
                        (case Y data DefaultConfig of
                           Inl e \<Rightarrow> Inl (Wrap ''failed to parse yaml config: %w'' e)
                         | Inr c \<Rightarrow> Inr c))
                  else Inr DefaultConfig)
      in case file of
           Inl e \<Rightarrow> Inl e
         | Inr c \<Rightarrow> Inr (apply_flags f (LoadFromEnv env c)))"

section \<open>The logger\<close>

datatype log_level = LevelDebug | LevelInfo | LevelWarn | LevelError

definition logger_New :: "string \<Rightarrow> log_level" where
  "logger_New level =
     (if level = ''debug'' then LevelDebug else if level = ''warn'' then LevelWarn
      else if level = ''error'' then LevelError else LevelInfo)"

text \<open>The levels are ordered; the handler that \<open>New\<close> makes writes the records at its level and above.\<close>

fun level_rank :: "log_level \<Rightarrow> int" where
  "level_rank LevelDebug = - 4"
| "level_rank LevelInfo = 0"
| "level_rank LevelWarn = 4"
| "level_rank LevelError = 8"

instantiation log_level :: linorder
begin

definition less_eq_log_level :: "log_level \<Rightarrow> log_level \<Rightarrow> bool" where
  "less_eq_log_level a b \<longleftrightarrow> level_rank a \<le> level_rank b"

definition less_log_level :: "log_level \<Rightarrow> log_level \<Rightarrow> bool" where
  "less_log_level a b \<longleftrightarrow> level_rank a < level_rank b"

instance
proof
  fix a b :: log_level
  show "a = b" if "a \<le> b" and "b \<le> a"
    using that by (cases a; cases b) (simp_all add: less_eq_log_level_def)
qed (auto simp: less_eq_log_level_def less_log_level_def)

end

definition log_enabled :: "log_level \<Rightarrow> log_level \<Rightarrow> bool" where
  "log_enabled handler record_level \<longleftrightarrow> handler \<le> record_level"

text \<open>A higher level writes less, and errors are written at every level.\<close>

lemma log_enabled_antimono: "a \<le> b \<Longrightarrow> log_enabled b r \<Longrightarrow> log_enabled a r"
  by (auto simp: log_enabled_def)

lemma errors_logged: "log_enabled (logger_New level) LevelError"
  by (simp add: log_enabled_def logger_New_def less_eq_log_level_def)

end
