(* ===== verification/NetUtil.thy ===== *)
theory NetUtil
  imports GoIO GoStrings
begin

text \<open>
  Addresses (\<open>internal/network/network.go\<close>): the parts of package \<open>net\<close> the program uses, the
  advertised address, the private ranges, and the detection of the own address, for which the
  answers of the remote services and of the operating system are given.
\<close>

section \<open>Package net\<close>

definition last_index :: "char \<Rightarrow> string \<Rightarrow> nat option" where
  "last_index c s = (if c \<in> set s then Some (length s - 1 - length (takeWhile (\<lambda>x. x \<noteq> c) (rev s))) else None)"

definition first_index :: "char \<Rightarrow> string \<Rightarrow> nat option" where
  "first_index c s = (if c \<in> set s then Some (length (takeWhile (\<lambda>x. x \<noteq> c) s)) else None)"

definition addr_err :: "string \<Rightarrow> string \<Rightarrow> error" where
  "addr_err why a = Errorf ''address %s: %s'' [a, why]"

text \<open>\<open>net.SplitHostPort\<close>.\<close>

definition SplitHostPort :: "string \<Rightarrow> (string \<times> string) result" where
  "SplitHostPort hp =
     (case last_index (CHR '':'') hp of
        None \<Rightarrow> Inl (addr_err ''missing port in address'' hp)
      | Some i \<Rightarrow>
         (let bracket =
            (if hd hp = CHR ''['' then
               (case first_index (CHR '']'') hp of
                  None \<Rightarrow> Inl (addr_err ''missing ']' in address'' hp)
                | Some e \<Rightarrow>
                    if e + 1 = length hp then Inl (addr_err ''missing port in address'' hp)
                    else if e + 1 = i then Inr (drop 1 (take e hp), 1, e + 1)
                    else if hp ! (e + 1) = CHR '':'' then Inl (addr_err ''too many colons in address'' hp)
                    else Inl (addr_err ''missing port in address'' hp))
             else if CHR '':'' \<in> set (take i hp) then Inl (addr_err ''too many colons in address'' hp)
             else Inr (take i hp, 0, 0))
          in case bracket of
               Inl e \<Rightarrow> Inl e
             | Inr (host, j, k) \<Rightarrow>
                 if CHR ''['' \<in> set (drop j hp) then Inl (addr_err ''unexpected '[' in address'' hp)
                 else if CHR '']'' \<in> set (drop k hp) then Inl (addr_err ''unexpected ']' in address'' hp)
                 else Inr (host, drop (i + 1) hp)))"

definition JoinHostPort :: "string \<Rightarrow> string \<Rightarrow> string" where
  "JoinHostPort host port =
     (if CHR '':'' \<in> set host then ''['' @ host @ '']:'' @ port else host @ '':'' @ port)"

text \<open>\<open>net.ParseIP\<close>: the sixteen bytes of an address, an IPv4 address in its mapped form.\<close>

fun v4_fields :: "nat list \<Rightarrow> nat \<Rightarrow> nat \<Rightarrow> string \<Rightarrow> nat list option" where
  "v4_fields fs val digits [] = (if length fs = 3 then Some (fs @ [val]) else None)"
| "v4_fields fs val digits (c # s) =
     (if is_digit c then
        (let v = val * 10 + nat (digit_value c)
         in if digits = 1 \<and> val = 0 \<or> v > 255 then None else v4_fields fs v (digits + 1) s)
      else if c = CHR ''.'' \<and> digits \<noteq> 0 \<and> s \<noteq> [] \<and> length fs \<noteq> 3 then v4_fields (fs @ [val]) 0 0 s
      else None)"

definition hex_val :: "string \<Rightarrow> nat" where
  "hex_val g = foldl (\<lambda>a c. a * 16 + (case hex_value c of Some v \<Rightarrow> v | None \<Rightarrow> 0)) 0 g"

text \<open>At most eight groups; the ellipsis is remembered as the number of bytes before it.\<close>

fun v6_groups :: "nat \<Rightarrow> nat list \<Rightarrow> nat option \<Rightarrow> string \<Rightarrow> (nat list \<times> nat option \<times> string) option" where
  "v6_groups 0 ip ell s = Some (ip, ell, s)"
| "v6_groups (Suc n) ip ell s =
     (let g = takeWhile (\<lambda>c. hex_value c \<noteq> None) s; r = dropWhile (\<lambda>c. hex_value c \<noteq> None) s;
          ip' = ip @ [hex_val g div 256, hex_val g mod 256]
      in if g = [] \<or> length g > 4 then None
         else case r of
           [] \<Rightarrow> Some (ip', ell, [])
         | c # r1 \<Rightarrow>
             if c = CHR ''.'' then
               (if ell = None \<and> length ip \<noteq> 12 \<or> length ip + 4 > 16 then None
                else map_option (\<lambda>f. (ip @ f, ell, [])) (v4_fields [] 0 0 s))
             else if c \<noteq> CHR '':'' \<or> r1 = [] then None
             else if hd r1 = CHR '':'' then
               (if ell \<noteq> None then None
                else if tl r1 = [] then Some (ip', Some (length ip'), [])
                else v6_groups n ip' (Some (length ip')) (tl r1))
             else v6_groups n ip' ell r1)"

definition parse_v6 :: "string \<Rightarrow> nat list option" where
  "parse_v6 s =
     (let lead = HasPrefix s ''::''
      in if lead \<and> length s = 2 then Some (replicate 16 0)
         else case v6_groups 8 [] (if lead then Some 0 else None) (if lead then drop 2 s else s) of
           None \<Rightarrow> None
         | Some (ip, ell, rest) \<Rightarrow>
             if rest \<noteq> [] then None
             else case ell of
               None \<Rightarrow> if length ip < 16 then None else Some ip
             | Some e \<Rightarrow> if length ip < 16 then Some (take e ip @ replicate (16 - length ip) 0 @ drop e ip) else None)"

definition ParseIP :: "string \<Rightarrow> nat list option" where
  "ParseIP s =
     (if CHR ''%'' \<in> set s then None
      else case dropWhile (\<lambda>c. c \<noteq> CHR ''.'' \<and> c \<noteq> CHR '':'') s of
        [] \<Rightarrow> None
      | c # _ \<Rightarrow>
          if c = CHR ''.'' then map_option (\<lambda>f. replicate 10 0 @ [255, 255] @ f) (v4_fields [] 0 0 s)
          else parse_v6 s)"

definition To4 :: "nat list \<Rightarrow> nat list option" where
  "To4 ip = (if take 10 ip = replicate 10 0 \<and> take 2 (drop 10 ip) = [255, 255] then Some (drop 12 ip) else None)"

definition v4_val :: "nat list \<Rightarrow> nat" where
  "v4_val f = foldl (\<lambda>a b. a * 256 + b) 0 f"

text \<open>\<open>IPNet.Contains\<close> for an IPv4 network of a given prefix length.\<close>

definition net_contains :: "nat list \<times> nat \<Rightarrow> nat list \<Rightarrow> bool" where
  "net_contains net ip =
     (case To4 ip of
        None \<Rightarrow> False
      | Some f \<Rightarrow> v4_val f div 2 ^ (32 - snd net) = v4_val (fst net) div 2 ^ (32 - snd net))"

section \<open>Advertised addresses\<close>

definition private_ranges :: "(nat list \<times> nat) list" where
  "private_ranges = [([10, 0, 0, 0], 8), ([172, 16, 0, 0], 12), ([192, 168, 0, 0], 16), ([127, 0, 0, 0], 8)]"

definition IsPrivateIP :: "string \<Rightarrow> bool" where
  "IsPrivateIP ip =
     (case ParseIP ip of None \<Rightarrow> False | Some a \<Rightarrow> list_ex (\<lambda>net. net_contains net a) private_ranges)"

definition ParseListenAddr :: "string \<Rightarrow> string result" where
  "ParseListenAddr listenAddr =
     (case SplitHostPort listenAddr of
        Inr (_, port) \<Rightarrow> Inr port
      | Inl _ \<Rightarrow>
         (case SplitHostPort (''localhost'' @ listenAddr) of
            Inr (_, port) \<Rightarrow> Inr port
          | Inl _ \<Rightarrow> Inl (Errorf ''invalid listen address: %s'' [listenAddr])))"

definition BuildAdvertiseAddr :: "string \<Rightarrow> string \<Rightarrow> string result" where
  "BuildAdvertiseAddr ip listenAddr =
     (case ParseListenAddr listenAddr of Inl e \<Rightarrow> Inl e | Inr port \<Rightarrow> Inr (JoinHostPort ip port))"

text \<open>\<open>GetLocalIP\<close>: the local end of a datagram socket, when one can be opened.\<close>

definition GetLocalIP :: "string option \<Rightarrow> string" where
  "GetLocalIP local = (case local of None \<Rightarrow> ''127.0.0.1'' | Some ip \<Rightarrow> ip)"

text \<open>
  \<open>GetPublicIP\<close> over the answers of the three services: an error, or status and body.  Decoding
  the JSON body is a parameter (its \<open>ip\<close> field, when the body is a document).
\<close>

type_synonym http_answer = "error + nat \<times> bytes result"

fun try_services :: "(bytes \<Rightarrow> string option) \<Rightarrow> http_answer list \<Rightarrow> string option" where
  "try_services json_ip [] = None"
| "try_services json_ip (a # as) =
     (case a of
        Inl _ \<Rightarrow> try_services json_ip as
      | Inr (status, body) \<Rightarrow>
          if status \<noteq> 200 then try_services json_ip as
          else case body of
            Inl _ \<Rightarrow> try_services json_ip as
          | Inr b \<Rightarrow>
             (case json_ip b of
                Some ip \<Rightarrow>
                  if ip \<noteq> [] then Some ip
                  else if ParseIP (bytes_str b) \<noteq> None then Some (bytes_str b) else try_services json_ip as
              | None \<Rightarrow> if ParseIP (bytes_str b) \<noteq> None then Some (bytes_str b) else try_services json_ip as))"

definition GetPublicIP :: "(bytes \<Rightarrow> string option) \<Rightarrow> http_answer list \<Rightarrow> string result" where
  "GetPublicIP json_ip answers =
     (case try_services json_ip answers of
        Some ip \<Rightarrow> Inr ip
      | None \<Rightarrow> Inl (Errorf ''failed to detect public IP from all services'' []))"

section \<open>Facts\<close>

lemma last_index_append:
  "c \<notin> set t \<Longrightarrow> last_index c (s @ c # t) = Some (length s)"
proof -
  assume "c \<notin> set t"
  then have "takeWhile (\<lambda>x. x \<noteq> c) (rev t @ c # rev s) = rev t"
    by (subst takeWhile_append2) auto
  then show ?thesis by (simp add: last_index_def)
qed

lemma first_index_append: "c \<notin> set s \<Longrightarrow> first_index c (s @ c # t) = Some (length s)"
proof -
  assume "c \<notin> set s"
  then have "takeWhile (\<lambda>x. x \<noteq> c) (s @ c # t) = s"
    by (subst takeWhile_append2) auto
  then show ?thesis by (simp add: first_index_def)
qed

lemma SplitHostPort_JoinHostPort:
  assumes "set host \<inter> {CHR ''['', CHR '']''} = {}" and "set port \<inter> {CHR ''['', CHR '']'', CHR '':''} = {}"
  shows "SplitHostPort (JoinHostPort host port) = Inr (host, port)"
proof (cases "CHR '':'' \<in> set host")
  case False
  have h: "host = [] \<or> hd host \<noteq> CHR ''[''" "hd (host @ CHR '':'' # port) \<noteq> CHR ''[''"
    using assms(1) by (cases host; auto)+
  have "last_index (CHR '':'') (host @ CHR '':'' # port) = Some (length host)"
    using assms(2) by (intro last_index_append) auto
  then show ?thesis
    using False assms h(2) by (auto simp: JoinHostPort_def SplitHostPort_def Let_def)
next
  case True
  let ?hp = "CHR ''['' # host @ CHR '']'' # CHR '':'' # port"
  have li: "last_index (CHR '':'') ?hp = Some (length host + 2)"
    using last_index_append [of "CHR '':''" port "CHR ''['' # host @ [CHR '']'']"] assms(2) by simp
  have fi: "first_index (CHR '']'') ?hp = Some (length host + 1)"
    using first_index_append [of "CHR '']''" "CHR ''['' # host" "CHR '':'' # port"] assms(1) by simp
  show ?thesis
    using True assms li fi by (auto simp: JoinHostPort_def SplitHostPort_def Let_def)
qed

text \<open>Prepending a host name never helps: what splits with it splits without.\<close>

lemma SplitHostPort_prefix:
  assumes "SplitHostPort (''localhost'' @ a) = Inr (h, p)"
  shows "\<exists>h'. SplitHostPort a = Inr (h', p)"
proof -
  let ?c = "CHR '':''"
  have nb: "CHR ''['' \<notin> set a" "CHR '']'' \<notin> set a"
    using assms by (auto simp: SplitHostPort_def Let_def split: option.splits if_splits)
  have "?c \<in> set a"
    using assms by (auto simp: SplitHostPort_def last_index_def split: if_splits)
  then obtain s t where a: "a = s @ ?c # t" "?c \<notin> set t"
    by (metis split_list_last)
  have li: "last_index ?c (''localhost'' @ a) = Some (length (''localhost'' @ s))" "last_index ?c a = Some (length s)"
    using last_index_append [OF a(2), of "''localhost'' @ s"] last_index_append [OF a(2), of s] by (simp_all add: a(1))
  have "?c \<notin> set s" "p = t"
    using assms li(1) by (auto simp: SplitHostPort_def Let_def a(1) split: if_splits)
  moreover have "hd a \<noteq> CHR ''[''"
    using nb(1) a(1) by (cases s) auto
  ultimately show ?thesis
    using nb li(2) by (auto simp: SplitHostPort_def Let_def a(1))
qed

lemma SplitHostPort_port:
  assumes "SplitHostPort a = Inr (h, p)"
  shows "set p \<inter> {CHR ''['', CHR '']'', CHR '':''} = {}"
proof -
  let ?c = "CHR '':''"
  have "?c \<in> set a"
    using assms by (auto simp: SplitHostPort_def last_index_def split: if_splits)
  then obtain s t where a: "a = s @ ?c # t" "?c \<notin> set t"
    by (metis split_list_last)
  have li: "last_index ?c a = Some (length s)"
    using last_index_append [OF a(2), of s] by (simp add: a(1))
  have "p = t"
    using assms li by (auto simp: SplitHostPort_def Let_def a(1) split: sum.splits prod.splits if_splits)
  moreover have "CHR ''['' \<notin> set t" "CHR '']'' \<notin> set t"
    using assms li by (cases s; auto simp: SplitHostPort_def Let_def a(1) split: option.splits if_splits)+
  ultimately show ?thesis
    using a(2) by simp
qed

end
