(* ===== verification/Discovery.thy ===== *)
theory Discovery
  imports NetUtil Metrics
begin

text \<open>
  Discovery of peers on the local network (\<open>internal/network/discovery.go\<close>).  The mDNS library is
  outside the repository: registering the service is a parameter, and the entries of a query are
  given as a list.  An IP address is its sixteen bytes.
\<close>

section \<open>Printing addresses\<close>

fun hex_nat :: "nat \<Rightarrow> string" where
  "hex_nat n = (if n < 16 then [hex_digit n] else hex_nat (n div 16) @ [hex_digit (n mod 16)])"

declare hex_nat.simps [simp del]

fun v6_pairs :: "nat list \<Rightarrow> nat list" where
  "v6_pairs (a # b # r) = (a * 256 + b) # v6_pairs r"
| "v6_pairs _ = []"

definition zero_run :: "nat list \<Rightarrow> nat \<Rightarrow> nat" where
  "zero_run gs i = length (takeWhile (\<lambda>g. g = 0) (drop i gs))"

text \<open>The first of the longest runs of at least two zero groups, as its start and end.\<close>

definition longest_zeros :: "nat list \<Rightarrow> (nat \<times> nat) option" where
  "longest_zeros gs =
     fold (\<lambda>i best. let l = zero_run gs i
                    in if l \<ge> 2 \<and> (case best of None \<Rightarrow> True | Some (a, b) \<Rightarrow> l > b - a) then Some (i, i + l) else best)
       [0..<8] None"

text \<open>\<open>IP.String\<close>.\<close>

definition IP_String :: "nat list \<Rightarrow> string" where
  "IP_String ip =
     (case To4 ip of
        Some f \<Rightarrow> str_join ''.'' (map nat_str f)
      | None \<Rightarrow>
         (let gs = v6_pairs ip; txt = (\<lambda>gs. str_join '':'' (map hex_nat gs))
          in case longest_zeros gs of
               None \<Rightarrow> txt gs
             | Some (a, b) \<Rightarrow> txt (take a gs) @ ''::'' @ txt (drop b gs)))"

section \<open>The service\<close>

record DiscoveryService =
  serviceName :: string
  ds_port :: int
  ds_advertiseAddr :: string
  ds_server :: bool
  onPeerFound :: bool
  discoveredPeers :: "(string \<times> int) list"
  ds_stopped :: bool

definition NewDiscoveryService :: "string \<Rightarrow> int \<Rightarrow> string \<Rightarrow> DiscoveryService" where
  "NewDiscoveryService name port advertiseAddr =
     \<lparr>serviceName = name, ds_port = port, ds_advertiseAddr = advertiseAddr, ds_server = False,
      onPeerFound = False, discoveredPeers = [], ds_stopped = False\<rparr>"

definition SetPeerFoundCallback :: "DiscoveryService \<Rightarrow> DiscoveryService" where
  "SetPeerFoundCallback ds = ds\<lparr>onPeerFound := True\<rparr>"

definition ds_Stop :: "DiscoveryService \<Rightarrow> DiscoveryService go" where
  "ds_Stop ds =
     (if ds_stopped ds then Panic ''close of closed channel'' else Return (ds\<lparr>ds_stopped := True\<rparr>))"

text \<open>A network interface: its flags and its addresses, when they can be listed.\<close>

record iface =
  if_up :: bool
  if_loopback :: bool
  if_addrs :: "nat list option list result"

definition is_loopback :: "nat list \<Rightarrow> bool" where
  "is_loopback ip =
     (case To4 ip of Some f \<Rightarrow> f \<noteq> [] \<and> hd f = 127 | None \<Rightarrow> ip = replicate 15 0 @ [1])"

definition iface_ips :: "iface \<Rightarrow> nat list list" where
  "iface_ips i =
     (if \<not> if_up i \<or> if_loopback i then []
      else case if_addrs i of
        Inl _ \<Rightarrow> []
      | Inr addrs \<Rightarrow> filter (\<lambda>ip. \<not> is_loopback ip) (map the (filter (\<lambda>a. a \<noteq> None) addrs)))"

definition getLocalIPs :: "iface list result \<Rightarrow> nat list list result" where
  "getLocalIPs ifaces = (case ifaces of Inl e \<Rightarrow> Inl e | Inr is \<Rightarrow> Inr (concat (map iface_ips is)))"

definition getHostname :: "string result \<Rightarrow> string result" where
  "getHostname h = (case h of Inl e \<Rightarrow> Inl e | Inr name \<Rightarrow> Inr (ReplaceAll name (CHR '' '') ''-''))"

text \<open>
  Advertising: the library registers host name, service, port, addresses and text records, or fails.
\<close>

type_synonym mdns = "string \<Rightarrow> string \<Rightarrow> string \<Rightarrow> int \<Rightarrow> nat list list \<Rightarrow> string list \<Rightarrow> error option"

definition startAdvertising ::
    "mdns \<Rightarrow> string result \<Rightarrow> iface list result \<Rightarrow> DiscoveryService \<Rightarrow> DiscoveryService \<times> error option" where
  "startAdvertising new_server host ifaces ds =
     (let hostname = (case getHostname host of Inl _ \<Rightarrow> ''peervault-node'' | Inr h \<Rightarrow> h)
      in case getLocalIPs ifaces of
           Inl e \<Rightarrow> (ds, Some e)
         | Inr ips \<Rightarrow>
            (case new_server hostname ''_peervault._tcp'' ''local.'' (ds_port ds) ips
                    [''version=1.0'', ''addr='' @ ds_advertiseAddr ds] of
               Some e \<Rightarrow> (ds, Some e)
             | None \<Rightarrow> (ds\<lparr>ds_server := True\<rparr>, None)))"

definition ds_Start ::
    "mdns \<Rightarrow> string result \<Rightarrow> iface list result \<Rightarrow> DiscoveryService \<Rightarrow> DiscoveryService \<times> error option" where
  "ds_Start new_server host ifaces ds =
     (case startAdvertising new_server host ifaces ds of
        (ds', Some e) \<Rightarrow> (ds', Some (Wrap ''failed to start mDNS advertising: %w'' e))
      | (ds', None) \<Rightarrow> (ds', None))"

section \<open>Discovered peers\<close>

record ServiceEntry =
  en_Port :: int
  en_AddrV4 :: "nat list option"
  en_AddrV6 :: "nat list option"

definition entry_addr :: "ServiceEntry \<Rightarrow> string option" where
  "entry_addr en =
     (case en_AddrV4 en of
        Some ip \<Rightarrow> Some (IP_String ip @ '':'' @ Itoa (en_Port en))
      | None \<Rightarrow> map_option (\<lambda>ip. ''['' @ IP_String ip @ '']:'' @ Itoa (en_Port en)) (en_AddrV6 en))"

definition is_self :: "DiscoveryService \<Rightarrow> nat list list \<Rightarrow> ServiceEntry \<Rightarrow> bool" where
  "is_self ds localIPs en \<longleftrightarrow> en_Port en = ds_port ds \<and>
     list_ex (\<lambda>ip. en_AddrV4 en = Some ip \<or> en_AddrV6 en = Some ip) localIPs"

text \<open>The address that is handed to the callback, when there is one.\<close>

definition handleDiscoveredPeer ::
    "iface list result \<Rightarrow> int \<Rightarrow> ServiceEntry \<Rightarrow> DiscoveryService \<Rightarrow> DiscoveryService \<times> string option" where
  "handleDiscoveredPeer ifaces now en ds =
     (let localIPs = (case getLocalIPs ifaces of Inl _ \<Rightarrow> [] | Inr ips \<Rightarrow> ips)
      in if is_self ds localIPs en then (ds, None)
         else case entry_addr en of
           None \<Rightarrow> (ds, None)
         | Some peerAddr \<Rightarrow>
             if (case map_of (discoveredPeers ds) peerAddr of
                   None \<Rightarrow> False | Some lastSeen \<Rightarrow> now - lastSeen < 5 * 60 * sec)
             then (ds, None)
             else (ds\<lparr>discoveredPeers := AList.update peerAddr now (discoveredPeers ds)\<rparr>,
                   if onPeerFound ds then Some peerAddr else None))"

text \<open>A scan: the entries with the time they are handled, up to the first after the context ended.\<close>

fun discoverPeers ::
    "iface list result \<Rightarrow> (bool \<times> int \<times> ServiceEntry) list \<Rightarrow> DiscoveryService \<Rightarrow>
     DiscoveryService \<times> (int \<times> string) list" where
  "discoverPeers ifaces [] ds = (ds, [])"
| "discoverPeers ifaces ((cancelled, now, en) # es) ds =
     (if cancelled then (ds, [])
      else case handleDiscoveredPeer ifaces now en ds of (ds1, found) \<Rightarrow>
        case discoverPeers ifaces es ds1 of (ds2, dials) \<Rightarrow>
          (ds2, (case found of None \<Rightarrow> dials | Some a \<Rightarrow> (now, a) # dials)))"

datatype scan_event = Scan "(bool \<times> int \<times> ServiceEntry) list" | ScanStopped

text \<open>The loop: a scan at the start and at every tick, until the context or the service ends.\<close>

fun startDiscovery ::
    "iface list result \<Rightarrow> scan_event list \<Rightarrow> DiscoveryService \<Rightarrow> DiscoveryService \<times> (int \<times> string) list" where
  "startDiscovery ifaces [] ds = (ds, [])"
| "startDiscovery ifaces (ScanStopped # es) ds = (ds, [])"
| "startDiscovery ifaces (Scan entries # es) ds =
     (case discoverPeers ifaces entries ds of (ds1, dials1) \<Rightarrow>
      case startDiscovery ifaces es ds1 of (ds2, dials2) \<Rightarrow> (ds2, dials1 @ dials2))"

definition GetDiscoveredPeers :: "DiscoveryService \<Rightarrow> string list" where
  "GetDiscoveredPeers ds = map fst (discoveredPeers ds)"

definition CleanupOldPeers :: "int \<Rightarrow> DiscoveryService \<Rightarrow> DiscoveryService" where
  "CleanupOldPeers now ds =
     (let cutoff = now - 10 * 60 * sec
      in ds\<lparr>discoveredPeers := filter (\<lambda>(peer, lastSeen). \<not> lastSeen < cutoff) (discoveredPeers ds)\<rparr>)"

text \<open>\<open>EnableLocalDiscovery\<close> of the server; the port is fixed.\<close>

definition EnableLocalDiscovery ::
    "mdns \<Rightarrow> string result \<Rightarrow> iface list result \<Rightarrow> string \<Rightarrow> DiscoveryService \<times> error option" where
  "EnableLocalDiscovery new_server host ifaces advertiseAddr =
     ds_Start new_server host ifaces (SetPeerFoundCallback (NewDiscoveryService ''peervault'' 3000 advertiseAddr))"

section \<open>Rate of dials\<close>

text \<open>
  Dials of one address are at least five minutes apart.  The record holds the time of the last
  dial, so that the statement carries over from scan to scan.
\<close>

definition spaced :: "DiscoveryService \<Rightarrow> (int \<times> string) list \<Rightarrow> bool" where
  "spaced ds dials \<longleftrightarrow>
     (\<forall>(t, a) \<in> set dials. case map_of (discoveredPeers ds) a of None \<Rightarrow> True | Some l \<Rightarrow> l + 5 * 60 * sec \<le> t) \<and>
     sorted_wrt (\<lambda>(t, a) (t', a'). a = a' \<longrightarrow> t + 5 * 60 * sec \<le> t') dials"

lemma sec_pos [simp]: "0 < sec"
  by (simp add: sec_def)

lemma handleDiscoveredPeer_cases:
  assumes "handleDiscoveredPeer ifaces now en ds = (ds', found)"
  obtains "ds' = ds" "found = None"
  | a where "discoveredPeers ds' = AList.update a now (discoveredPeers ds)" "found = None \<or> found = Some a"
      "case map_of (discoveredPeers ds) a of None \<Rightarrow> True | Some l \<Rightarrow> l + 5 * 60 * sec \<le> now"
      "onPeerFound ds' = onPeerFound ds"
  using assms by (auto simp: handleDiscoveredPeer_def Let_def split: if_splits option.splits)

lemma spaced_step:
  assumes "spaced ds' dials" and "discoveredPeers ds' = AList.update a now (discoveredPeers ds)"
    and "case map_of (discoveredPeers ds) a of None \<Rightarrow> True | Some l \<Rightarrow> l + 5 * 60 * sec \<le> now"
  shows "spaced ds dials" and "spaced ds ((now, a) # dials)"
proof -
  have d: "(case map_of (discoveredPeers ds) b of None \<Rightarrow> True | Some l \<Rightarrow> l + 5 * 60 * sec \<le> t) \<and>
    (a = b \<longrightarrow> now + 5 * 60 * sec \<le> t)" if "(t, b) \<in> set dials" for t b
  proof -
    have "case map_of (discoveredPeers ds') b of None \<Rightarrow> True | Some l \<Rightarrow> l + 5 * 60 * sec \<le> t"
      using assms(1) that by (auto simp: spaced_def)
    then show ?thesis
      using assms(2,3) by (cases "a = b"; cases "map_of (discoveredPeers ds) b") (auto simp: update_conv' sec_def)
  qed
  show "spaced ds dials"
    using assms(1) d by (auto simp: spaced_def)
  show "spaced ds ((now, a) # dials)"
    using assms(1,3) d by (auto simp: spaced_def)
qed

lemma discoverPeers_spaced: "discoverPeers ifaces es ds = (ds', dials) \<Longrightarrow> spaced ds dials"
proof (induction ifaces es ds arbitrary: ds' dials rule: discoverPeers.induct)
  case (2 ifaces cancelled now en es ds)
  obtain ds1 found where h: "handleDiscoveredPeer ifaces now en ds = (ds1, found)"
    by fastforce
  obtain ds2 ds' where r: "discoverPeers ifaces es ds1 = (ds2, ds')"
    by fastforce
  show ?case
  proof (cases cancelled)
    case True
    with 2 show ?thesis by (simp add: spaced_def)
  next
    case False
    have IH: "spaced ds1 ds'"
      using "2.IH" [OF False h [symmetric] r] .
    have out: "dials = (case found of None \<Rightarrow> ds' | Some a \<Rightarrow> (now, a) # ds')"
      using "2.prems" False h r by simp
    from h show ?thesis
    proof (cases rule: handleDiscoveredPeer_cases)
      case 1
      with IH out show ?thesis by simp
    next
      case (2 a)
      with out spaced_step [OF IH 2(1,3)] show ?thesis by auto
    qed
  qed
qed (simp add: spaced_def)

lemma discoverPeers_live:
  "discoverPeers ifaces (takeWhile (\<lambda>e. \<not> fst e) es) ds = discoverPeers ifaces es ds"
  by (induction ifaces es ds rule: discoverPeers.induct) (auto split: prod.split)

lemma discoverPeers_append:
  "list_all (\<lambda>e. \<not> fst e) es1 \<Longrightarrow> discoverPeers ifaces (es1 @ es2) ds =
     (case discoverPeers ifaces es1 ds of (ds1, d1) \<Rightarrow>
      case discoverPeers ifaces es2 ds1 of (ds2, d2) \<Rightarrow> (ds2, d1 @ d2))"
  by (induction ifaces es1 ds rule: discoverPeers.induct) (auto split: prod.splits option.splits)

text \<open>The loop handles the entries of all its scans one after the other.\<close>

lemma startDiscovery_flat: "\<exists>es. \<forall>ds. startDiscovery ifaces evs ds = discoverPeers ifaces es ds"
proof (induction evs)
  case Nil
  show ?case by (intro exI [of _ "[]"]) simp
next
  case (Cons ev evs)
  then obtain es where es: "\<forall>ds. startDiscovery ifaces evs ds = discoverPeers ifaces es ds" ..
  show ?case
  proof (cases ev)
    case (Scan entries)
    have "list_all (\<lambda>e. \<not> fst e) (takeWhile (\<lambda>e. \<not> fst e) entries)"
      by (auto simp: list_all_iff dest: set_takeWhileD)
    then show ?thesis
      using es Scan
      by (intro exI [of _ "takeWhile (\<lambda>e. \<not> fst e) entries @ es"]) (simp add: discoverPeers_append discoverPeers_live)
  next
    case ScanStopped
    then show ?thesis by (intro exI [of _ "[]"]) simp
  qed
qed

lemma startDiscovery_spaced: "startDiscovery ifaces evs ds = (ds', dials) \<Longrightarrow> spaced ds dials"
  using startDiscovery_flat [of ifaces evs] discoverPeers_spaced by metis

section \<open>What is dialled\<close>

text \<open>Every dial is of the address of an entry of some scan that is not the node itself.\<close>

definition local_ips :: "iface list result \<Rightarrow> nat list list" where
  "local_ips ifaces = (case getLocalIPs ifaces of Inl _ \<Rightarrow> [] | Inr ips \<Rightarrow> ips)"

definition dialable :: "iface list result \<Rightarrow> DiscoveryService \<Rightarrow> (bool \<times> int \<times> ServiceEntry) list \<Rightarrow> int \<times> string \<Rightarrow> bool" where
  "dialable ifaces ds es d \<longleftrightarrow>
     (\<exists>en. (False, fst d, en) \<in> set es \<and> entry_addr en = Some (snd d) \<and> \<not> is_self ds (local_ips ifaces) en)"

lemma handleDiscoveredPeer_port:
  assumes "handleDiscoveredPeer ifaces now en ds = (ds', found)"
  shows "ds_port ds' = ds_port ds"
    and "found = Some a \<Longrightarrow> entry_addr en = Some a \<and> \<not> is_self ds (local_ips ifaces) en"
  using assms by (auto simp: handleDiscoveredPeer_def Let_def local_ips_def split: if_splits option.splits)

lemma dialable_port: "ds_port ds' = ds_port ds \<Longrightarrow> dialable ifaces ds' es d = dialable ifaces ds es d"
  by (simp add: dialable_def is_self_def)

lemma dialable_mono: "dialable ifaces ds es d \<Longrightarrow> set es \<subseteq> set es' \<Longrightarrow> dialable ifaces ds es' d"
  by (auto simp: dialable_def)

lemma dialable_append:
  "dialable ifaces ds (es @ es') d \<longleftrightarrow> dialable ifaces ds es d \<or> dialable ifaces ds es' d"
  by (auto simp: dialable_def)

lemma discoverPeers_dialable:
  "discoverPeers ifaces es ds = (ds', dials) \<Longrightarrow> ds_port ds' = ds_port ds \<and> list_all (dialable ifaces ds es) dials"
proof (induction ifaces es ds arbitrary: ds' dials rule: discoverPeers.induct)
  case (2 ifaces cancelled now en es ds)
  obtain ds1 found where h: "handleDiscoveredPeer ifaces now en ds = (ds1, found)"
    by fastforce
  obtain ds2 rest where r: "discoverPeers ifaces es ds1 = (ds2, rest)"
    by fastforce
  show ?case
  proof (cases cancelled)
    case True
    with 2 show ?thesis by simp
  next
    case False
    note p = handleDiscoveredPeer_port [OF h]
    have "ds_port ds2 = ds_port ds1" "list_all (dialable ifaces ds1 es) rest"
      using "2.IH" [OF False h [symmetric] r] by simp_all
    then have "ds_port ds2 = ds_port ds" "list_all (dialable ifaces ds ((cancelled, now, en) # es)) rest"
      using p(1) by (auto simp: list_all_iff dialable_port [OF p(1)] intro: dialable_mono [where es = es])
    moreover have "dialable ifaces ds ((cancelled, now, en) # es) (now, a)" if "found = Some a" for a
      using p(2) [OF that] False by (auto simp: dialable_def)
    ultimately show ?thesis
      using "2.prems" False h r by (auto split: option.splits)
  qed
qed simp

fun entries :: "scan_event list \<Rightarrow> (bool \<times> int \<times> ServiceEntry) list" where
  "entries [] = []"
| "entries (ScanStopped # es) = []"
| "entries (Scan en # es) = en @ entries es"

lemma startDiscovery_dialable:
  "startDiscovery ifaces evs ds = (ds', dials) \<Longrightarrow> list_all (dialable ifaces ds (entries evs)) dials"
proof (induction ifaces evs ds arbitrary: ds' dials rule: startDiscovery.induct)
  case (3 ifaces en evs ds)
  obtain ds1 d1 ds2 d2 where r: "discoverPeers ifaces en ds = (ds1, d1)" "startDiscovery ifaces evs ds1 = (ds2, d2)"
    by (metis surj_pair)
  have "list_all (dialable ifaces ds (entries evs)) d2"
    using "3.IH" [OF r(1) [symmetric] r(2)] discoverPeers_dialable [OF r(1)]
    by (simp add: list_all_iff dialable_port [of ds1 ds])
  with discoverPeers_dialable [OF r(1)] "3.prems" r show ?case
    by (auto simp: list_all_iff dialable_append)
qed simp_all

end
