(* ===== verification/FileWalk.thy ===== *)
theory FileWalk
  imports FileSys "HOL-Library.Multiset"
begin

text \<open>
  \<open>filepath.Walk\<close> with a callback that may change the file system while the walk is under way, as
  PeerVault's garbage collector does, and its laws: stated once for every callback that keeps an
  invariant and only removes entries (locale \<open>walker\<close>), and for callbacks that read only.
\<close>

section \<open>filepath.Walk\<close>

text \<open>
  The callback gets the path, the result of \<open>lstat\<close> and the state, and returns the new state and an
  error (none of PeerVault's callbacks returns \<open>SkipDir\<close>).  The names of a directory are read
  before its callback runs, each entry is looked up again when its turn comes, and the first error
  ends the walk.  The fuel bounds the depth; \<open>None\<close> means that it was too small.
\<close>

type_synonym 'a walk_st = "fs \<times> 'a"
type_synonym 'a walk_fn = "string \<Rightarrow> inode result \<Rightarrow> 'a walk_st \<Rightarrow> 'a walk_st \<times> error option"

function (sequential) walk ::
    "nat \<Rightarrow> 'a walk_fn \<Rightarrow> string \<Rightarrow> inode \<Rightarrow> 'a walk_st \<Rightarrow> ('a walk_st \<times> error option) option"
  and walk_names ::
    "nat \<Rightarrow> 'a walk_fn \<Rightarrow> string \<Rightarrow> string list \<Rightarrow> 'a walk_st \<Rightarrow>
     ('a walk_st \<times> error option) option"
where
  "walk n cb p (File b) st = Some (cb p (Inr (File b)) st)"
| "walk 0 cb p Dir st = None"
| "walk (Suc n) cb p Dir st =
     (let names = children (fst st) (path_of p)
      in case cb p (Inr Dir) st of
           (st', Some e) \<Rightarrow> Some (st', Some e)
         | (st', None) \<Rightarrow> walk_names n cb p names st')"
| "walk_names n cb p [] st = Some (st, None)"
| "walk_names n cb p (x # xs) st =
     (let q = Join [p, x]
      in case os_Stat (fst st) q of
           Inl e \<Rightarrow>
             (case cb q (Inl e) st of
                (st', Some e') \<Rightarrow> Some (st', Some e')
              | (st', None) \<Rightarrow> walk_names n cb p xs st')
         | Inr i \<Rightarrow>
             (case walk n cb q i st of
                None \<Rightarrow> None
              | Some (st', Some e') \<Rightarrow> Some (st', Some e')
              | Some (st', None) \<Rightarrow> walk_names n cb p xs st'))"
  by pat_completeness auto
termination
  by (relation "measures [\<lambda>x. case x of Inl (n, _) \<Rightarrow> n | Inr (n, _) \<Rightarrow> n,
                          \<lambda>x. case x of Inl _ \<Rightarrow> 0 | Inr (_, _, _, xs, _) \<Rightarrow> length xs]")
     auto

text \<open>One unit of fuel more than the number of components of the longest path is enough.\<close>

definition walk_fuel :: "fs \<Rightarrow> nat" where
  "walk_fuel fs = Suc (foldr max (map (length \<circ> fst) fs) 0)"

definition Walk :: "'a walk_fn \<Rightarrow> string \<Rightarrow> 'a walk_st \<Rightarrow> ('a walk_st \<times> error option) option" where
  "Walk cb root st =
     (case os_Stat (fst st) root of
        Inl e \<Rightarrow> Some (cb root (Inl e) st)
      | Inr i \<Rightarrow> walk (walk_fuel (fst st)) cb root i st)"

section \<open>Directory listings\<close>

lemma fs_wf_name: "fs_wf fs \<Longrightarrow> fs_get fs p = Some i \<Longrightarrow> \<not> is_root p \<Longrightarrow> norm_comp (last p)"
  using fs_get_key unfolding fs_wf_def by blast

lemma children_iff:
  assumes "fs_wf fs"
  shows "x \<in> set (children fs p) \<longleftrightarrow> norm_comp x \<and> fs_get fs (p @ [x]) \<noteq> None"
proof
  assume "x \<in> set (children fs p)"
  then obtain q where q: "q \<in> set (map fst fs)" "q \<noteq> []" "butlast q = p" "x = last q"
    by (auto simp: children_def)
  then have "q = p @ [x]" by (metis append_butlast_last_id)
  moreover have "norm_comp (last q)"
    using assms q(1) unfolding fs_wf_def by blast
  moreover obtain i where "fs_get fs q = Some i"
    using fs_key_get [OF assms q(1)] by blast
  ultimately show "norm_comp x \<and> fs_get fs (p @ [x]) \<noteq> None"
    using q(4) by simp
next
  assume *: "norm_comp x \<and> fs_get fs (p @ [x]) \<noteq> None"
  then have "\<not> is_root (p @ [x])"
    by (cases p) (auto simp: is_root_def norm_comp_def)
  with * have "p @ [x] \<in> set (map fst fs)"
    using fs_get_key by blast
  then have "p @ [x] \<in> set (filter (\<lambda>q. q \<noteq> [] \<and> butlast q = p) (map fst fs))" by simp
  then have "last (p @ [x]) \<in> last ` set (filter (\<lambda>q. q \<noteq> [] \<and> butlast q = p) (map fst fs))"
    by (rule imageI)
  then show "x \<in> set (children fs p)"
    by (simp add: children_def)
qed

lemma fs_wf_comp:
  assumes "fs_wf fs" and "fs_get fs (p @ x # us) = Some i" and "\<not> is_root (p @ [x])"
  shows "norm_comp x"
proof -
  have "\<exists>j. fs_get fs (p @ [x]) = Some j"
    using fs_wf_prefix [OF assms(1), of "p @ [x]" us i] assms(2) by (cases us) auto
  with assms(1,3) fs_wf_name [of fs "p @ [x]"] show ?thesis by auto
qed

lemma norm_not_root: "norm_comp x \<Longrightarrow> \<not> is_root (p @ [x])"
  by (cases p) (auto simp: is_root_def norm_comp_def)

lemma path_of_Join2:
  assumes "p \<noteq> []" and "norm_comp x"
  shows "path_of (Join [p, x]) = path_of p @ [x]"
proof -
  have "split sep x = [x]"
    using assms by (intro split_no_sep) (simp add: norm_comp_def)
  then have "clean_comps (is_rooted p) [] (split sep (str_join [sep] [p, x])) = comps_of p @ [x]"
    using assms by (simp add: split_append_sep clean_comps_append clean_comps_norm comps_of_def
        norm_comp_def)
  moreover have "is_rooted (str_join [sep] [p, x]) = is_rooted p"
    using assms(1) by (rule is_rooted_join)
  ultimately have "path_of (str_join [sep] [p, x]) = path_of p @ [x]"
    by (simp only: path_of_eq mk_path_append comps_of_def)
  then show ?thesis
    by (simp only: Join_nonempty [OF assms(1)] path_of_Clean)
qed

lemma os_Stat_get:
  assumes "fs_wf fs" and "p \<noteq> []" and "fs_get fs (path_of p) = Some i"
  shows "os_Stat fs p = Inr i"
  using assms by (simp add: os_Stat_def os_err_def fs_stat_get)

lemma os_Stat_Inr: "os_Stat fs p = Inr i \<Longrightarrow> p \<noteq> [] \<and> fs_get fs (path_of p) = Some i"
  by (auto simp: os_Stat_def os_err_def fs_stat_Inr split: if_splits sum.splits)

section \<open>Callbacks that only remove\<close>

definition fs_depth :: "fs \<Rightarrow> nat \<Rightarrow> bool" where
  "fs_depth fs d \<longleftrightarrow> (\<forall>q i. fs_get fs q = Some i \<longrightarrow> is_root q \<or> length q \<le> d)"

definition fs_sub :: "fs \<Rightarrow> fs \<Rightarrow> bool" where
  "fs_sub fs fs' \<longleftrightarrow> (\<forall>q i. fs_get fs q = Some i \<longrightarrow> fs_get fs' q = Some i)"

lemma fs_sub_refl [simp]: "fs_sub fs fs"
  by (simp add: fs_sub_def)

lemma fs_sub_trans: "fs_sub a b \<Longrightarrow> fs_sub b c \<Longrightarrow> fs_sub a c"
  by (simp add: fs_sub_def)

lemma fs_sub_get: "fs_sub a b \<Longrightarrow> fs_get a q = Some i \<Longrightarrow> fs_get b q = Some i"
  by (simp add: fs_sub_def)

lemma fs_sub_depth: "fs_sub a b \<Longrightarrow> fs_depth b d \<Longrightarrow> fs_depth a d"
  unfolding fs_sub_def fs_depth_def by blast

lemma fs_sub_remove [simp]: "fs_sub (fs_remove fs p) fs"
  by (auto simp: fs_sub_def fs_get_remove split: if_splits)

lemma fs_depth_fuel: "fs_depth fs (walk_fuel fs - 1)"
proof -
  have "length q \<le> foldr max (map (length \<circ> fst) al) 0" if "q \<in> set (map fst al)"
    for q :: path and al :: fs
    using that by (induction al) (auto simp: le_max_iff_disj)
  then have "is_root q \<or> length q \<le> foldr max (map (length \<circ> fst) fs) 0"
    if "fs_get fs q = Some i" for q i
    using fs_get_key [of q fs i] that by blast
  then show ?thesis
    by (simp add: fs_depth_def walk_fuel_def)
qed

text \<open>
  A callback with an invariant of the state.  \<open>ok\<close> is what a visit without error establishes of an
  entry that is still there afterwards; \<open>vis\<close> bounds the paths the walk can reach.
\<close>

locale walker =
  fixes cb :: "'a walk_fn"
    and inv :: "'a walk_st \<Rightarrow> bool"
    and ok :: "path \<Rightarrow> inode \<Rightarrow> bool"
    and vis :: "string \<Rightarrow> bool"
  assumes vis_nonempty: "vis p \<Longrightarrow> p \<noteq> []"
    and vis_Join: "vis p \<Longrightarrow> norm_comp x \<Longrightarrow> vis (Join [p, x])"
    and keeps: "inv st \<Longrightarrow> vis p \<Longrightarrow> cb p r st = (st', e) \<Longrightarrow> inv st'"
    and inv_wf: "inv st \<Longrightarrow> fs_wf (fst st)"
    and shrinks: "inv st \<Longrightarrow> vis p \<Longrightarrow> cb p r st = (st', e) \<Longrightarrow> fs_sub (fst st') (fst st)"
    and visit: "inv st \<Longrightarrow> vis p \<Longrightarrow> fs_get (fst st) (path_of p) = Some i \<Longrightarrow>
      cb p (Inr i) st = (st', None) \<Longrightarrow> fs_get (fst st') (path_of p) = Some i \<Longrightarrow> ok (path_of p) i"
begin

definition settled :: "path \<Rightarrow> 'a walk_st \<Rightarrow> bool" where
  "settled p st \<longleftrightarrow> (\<forall>q i. below p q \<longrightarrow> fs_get (fst st) q = Some i \<longrightarrow> ok q i)"

text \<open>What a (partial) walk guarantees: it ends, keeps the invariant, only removes, covers.\<close>

definition covers :: "path set \<Rightarrow> 'a walk_st \<Rightarrow> ('a walk_st \<times> error option) option \<Rightarrow> bool" where
  "covers ps st res \<longleftrightarrow>
     (\<exists>st' e. res = Some (st', e) \<and> inv st' \<and> fs_sub (fst st') (fst st) \<and>
        (e = None \<longrightarrow> (\<forall>p \<in> ps. settled p st')))"

lemma settled_sub: "settled p st \<Longrightarrow> fs_sub (fst st') (fst st) \<Longrightarrow> settled p st'"
  by (auto simp: settled_def fs_sub_def)

lemma covers_step:
  assumes "covers ps st res" and "\<And>st'. res = Some (st', None) \<Longrightarrow> inv st' \<Longrightarrow>
      fs_sub (fst st') (fst st) \<Longrightarrow> covers qs st' (f st')"
  shows "covers (ps \<union> qs) st
    (case res of None \<Rightarrow> None | Some (st', Some e) \<Rightarrow> Some (st', Some e) | Some (st', None) \<Rightarrow> f st')"
proof -
  from assms(1) obtain st' e where res: "res = Some (st', e)" and inv: "inv st'"
    and sub: "fs_sub (fst st') (fst st)" and cov: "e = None \<longrightarrow> (\<forall>p \<in> ps. settled p st')"
    by (auto simp: covers_def)
  show ?thesis
  proof (cases e)
    case None
    with assms(2) res inv sub have "covers qs st' (f st')" by simp
    then obtain st'' e' where f: "f st' = Some (st'', e')" and "inv st''"
      and sub': "fs_sub (fst st'') (fst st')" and "e' = None \<longrightarrow> (\<forall>p \<in> qs. settled p st'')"
      by (auto simp: covers_def)
    moreover have "\<forall>p \<in> ps. settled p st''"
      using None cov sub' settled_sub by blast
    moreover have "fs_sub (fst st'') (fst st)"
      using sub' sub by (rule fs_sub_trans)
    ultimately show ?thesis
      using res None by (auto simp: covers_def)
  next
    case (Some e')
    with res inv sub show ?thesis by (simp add: covers_def)
  qed
qed

lemma walk_file_covers:
  assumes "inv st" and "vis p" and "fs_get (fst st) (path_of p) = Some (File b)"
  shows "covers {path_of p} st (walk n cb p (File b) st)"
proof -
  obtain st' e where cb: "cb p (Inr (File b)) st = (st', e)" by fastforce
  note sub = shrinks [OF assms(1,2) cb]
  have "ok q i" if "e = None" "below (path_of p) q" "fs_get (fst st') q = Some i" for q i
  proof -
    from that obtain u where u: "q = path_of p @ u" by (auto simp: below_iff)
    have "u = []"
      using fs_wf_prefix [OF inv_wf [OF assms(1)], of "path_of p" u i] fs_sub_get [OF sub that(3)]
        assms(3) u by fastforce
    with u that fs_sub_get [OF sub that(3)] assms cb show "ok q i"
      using visit [of st p "File b" st'] by auto
  qed
  with cb sub keeps [OF assms(1,2) cb] show ?thesis
    by (auto simp: covers_def settled_def)
qed

lemma walk_dir_covers:
  assumes "inv st" and "vis p" and "fs_get (fst st) (path_of p) = Some Dir"
    and cb: "cb p (Inr Dir) st = (st1, None)"
    and "covers ((\<lambda>x. path_of p @ [x]) ` set (children (fst st) (path_of p))) st1 res"
    and "\<not> is_root (path_of p)"
  shows "covers {path_of p} st res"
proof -
  note sub1 = shrinks [OF assms(1,2) cb] and wf = inv_wf [OF assms(1)]
  from assms(5) obtain st2 e2 where res: "res = Some (st2, e2)" and inv2: "inv st2"
    and sub2: "fs_sub (fst st2) (fst st1)"
    and cov: "e2 = None \<Longrightarrow> x \<in> set (children (fst st) (path_of p)) \<Longrightarrow>
          settled (path_of p @ [x]) st2" for x
    by (auto simp: covers_def)
  have "ok q i" if "e2 = None" "below (path_of p) q" "fs_get (fst st2) q = Some i" for q i
  proof -
    from that obtain u where u: "q = path_of p @ u" by (auto simp: below_iff)
    note q1 = fs_sub_get [OF sub2 that(3)]
    note q0 = fs_sub_get [OF sub1 q1]
    show "ok q i"
    proof (cases u)
      case Nil
      with u q0 q1 assms(1-3) cb visit [of st p Dir st1] show ?thesis by simp
    next
      case (Cons x us)
      have "fs_get (fst st) (path_of p @ [x]) \<noteq> None"
        using q0 u Cons fs_wf_prefix [OF wf, of "path_of p @ [x]" us i] by (cases us) auto
      moreover have "norm_comp x"
        using q0 u Cons assms(6) by (intro fs_wf_comp [OF wf, of "path_of p" x us i]) (auto simp: is_root_def)
      ultimately have "settled (path_of p @ [x]) st2"
        using cov that(1) children_iff [OF wf] by blast
      moreover have "below (path_of p @ [x]) q"
        using u Cons below_append [of "path_of p @ [x]" us] by simp
      ultimately show ?thesis
        using that(3) by (simp add: settled_def)
    qed
  qed
  with res inv2 fs_sub_trans [OF sub2 sub1] show ?thesis
    by (auto simp: covers_def settled_def)
qed

lemma missing_covers:
  assumes "inv st" and "vis q" and "os_Stat (fst st) q = Inl e"
  shows "covers {path_of q} st (Some (cb q r st))"
proof -
  have none: "fs_get (fst st) (path_of q) = None"
  proof (rule ccontr)
    assume "fs_get (fst st) (path_of q) \<noteq> None"
    then show False
      using os_Stat_get [of "fst st" q] inv_wf assms vis_nonempty by fastforce
  qed
  obtain st' e' where cb: "cb q r st = (st', e')" by fastforce
  note sub = shrinks [OF assms(1,2) cb]
  have "ok u i" if "below (path_of q) u" "fs_get (fst st') u = Some i" for u i
  proof -
    from that obtain v where v: "u = path_of q @ v" by (auto simp: below_iff)
    with fs_sub_get [OF sub that(2)] none show "ok u i"
      using fs_wf_prefix [OF inv_wf [OF assms(1)], of "path_of q" v i] by (cases "v = []") auto
  qed
  then show ?thesis
    using cb sub keeps [OF assms(1,2) cb] by (simp add: covers_def settled_def)
qed

lemma walk_names_covers:
  assumes walk: "\<And>q i st. inv st \<Longrightarrow> vis q \<Longrightarrow> \<not> is_root (path_of q) \<Longrightarrow>
      fs_get (fst st) (path_of q) = Some i \<Longrightarrow> fs_depth (fst st) d \<Longrightarrow>
      d < length (path_of q) + n \<Longrightarrow> covers {path_of q} st (walk n cb q i st)"
    and "vis p" and "d < Suc (length (path_of p)) + n"
  shows "inv st \<Longrightarrow> fs_depth (fst st) d \<Longrightarrow> list_all norm_comp xs \<Longrightarrow>
    covers ((\<lambda>x. path_of p @ [x]) ` set xs) st (walk_names n cb p xs st)"
proof (induction xs arbitrary: st)
  case Nil
  then show ?case by (simp add: covers_def)
next
  case (Cons x xs)
  let ?q = "Join [p, x]"
  have x: "norm_comp x" using Cons.prems by simp
  have q: "path_of ?q = path_of p @ [x]" "vis ?q" "\<not> is_root (path_of ?q)"
    using path_of_Join2 [OF vis_nonempty [OF assms(2)] x] vis_Join [OF assms(2) x] norm_not_root [OF x] by auto
  let ?res = "case os_Stat (fst st) ?q of
      Inl e \<Rightarrow> Some (cb ?q (Inl e) st) | Inr i \<Rightarrow> walk n cb ?q i st"
  have "covers {path_of ?q} st ?res"
  proof (cases "os_Stat (fst st) ?q")
    case (Inl e)
    with Cons.prems(1) q(2) show ?thesis
      by (simp add: missing_covers)
  next
    case (Inr i)
    then have "fs_get (fst st) (path_of ?q) = Some i"
      by (simp add: os_Stat_Inr)
    with Cons.prems q assms(3) have "covers {path_of ?q} st (walk n cb ?q i st)"
      by (intro walk) simp_all
    with Inr show ?thesis by simp
  qed
  then have "covers ({path_of ?q} \<union> (\<lambda>x. path_of p @ [x]) ` set xs) st
    (case ?res of None \<Rightarrow> None | Some (st', Some e) \<Rightarrow> Some (st', Some e)
       | Some (st', None) \<Rightarrow> walk_names n cb p xs st')"
    by (rule covers_step) (use Cons fs_sub_depth in auto)
  moreover have "walk_names n cb p (x # xs) st =
    (case ?res of None \<Rightarrow> None | Some (st', Some e) \<Rightarrow> Some (st', Some e)
       | Some (st', None) \<Rightarrow> walk_names n cb p xs st')"
    by (simp add: Let_def split: sum.splits prod.splits option.splits)
  ultimately show ?case
    using q by (simp del: walk_names.simps)
qed

lemma walk_covers:
  "inv st \<Longrightarrow> vis p \<Longrightarrow> \<not> is_root (path_of p) \<Longrightarrow>
   fs_get (fst st) (path_of p) = Some i \<Longrightarrow> fs_depth (fst st) d \<Longrightarrow>
   d < length (path_of p) + n \<Longrightarrow> covers {path_of p} st (walk n cb p i st)"
proof (induction n arbitrary: p i st)
  case 0
  then have "length (path_of p) \<le> d"
    by (auto simp: fs_depth_def)
  with 0 show ?case by simp
next
  case (Suc n)
  show ?case
  proof (cases i)
    case (File b)
    with Suc.prems show ?thesis
      using walk_file_covers [of st p b "Suc n"] by simp
  next
    case Dir
    obtain st1 e where cb: "cb p (Inr Dir) st = (st1, e)" by fastforce
    note inv1 = keeps [OF Suc.prems(1,2) cb] and sub1 = shrinks [OF Suc.prems(1,2) cb]
    let ?xs = "children (fst st) (path_of p)"
    show ?thesis
    proof (cases e)
      case (Some e')
      with Dir cb inv1 sub1 show ?thesis by (simp add: covers_def Let_def)
    next
      case None
      have "covers ((\<lambda>x. path_of p @ [x]) ` set ?xs) st1 (walk_names n cb p ?xs st1)"
      proof (rule walk_names_covers [where d = d])
        show "list_all norm_comp ?xs"
          using children_iff [OF inv_wf [OF Suc.prems(1)]] by (simp add: list_all_iff)
      qed (use Suc.IH Suc.prems inv1 sub1 fs_sub_depth in auto)
      then have "covers {path_of p} st (walk_names n cb p ?xs st1)"
        using walk_dir_covers Suc.prems cb None Dir by blast
      then show ?thesis
        using Dir cb None by (simp add: Let_def)
    qed
  qed
qed

text \<open>The walk from a proper root ends, keeps the invariant, only removes, and visits everything.\<close>

theorem Walk_covers:
  assumes "inv st" and "vis root" and "\<not> is_root (path_of root)"
  shows "covers {path_of root} st (Walk cb root st)"
proof (cases "os_Stat (fst st) root")
  case (Inl e)
  with assms show ?thesis by (simp add: Walk_def missing_covers)
next
  case (Inr i)
  then have "fs_get (fst st) (path_of root) = Some i"
    by (simp add: os_Stat_Inr)
  with assms have "covers {path_of root} st (walk (walk_fuel (fst st)) cb root i st)"
    by (intro walk_covers [OF _ _ _ _ fs_depth_fuel]) (auto simp: walk_fuel_def)
  with Inr show ?thesis by (simp add: Walk_def)
qed

lemma Walk_result:
  assumes "inv st" and "vis root" and "\<not> is_root (path_of root)"
  obtains st' e where "Walk cb root st = Some (st', e)" and "inv st'"
    and "fs_sub (fst st') (fst st)" and "e = None \<Longrightarrow> settled (path_of root) st'"
  using Walk_covers [OF assms] by (auto simp: covers_def)

end

text \<open>A walk whose callback never fails does not fail.\<close>

lemma walk_no_error:
  "(\<And>p r st. snd (cb p r st) = None) \<Longrightarrow> walk n cb p i st = Some (st', e) \<Longrightarrow> e = None"
  "(\<And>p r st. snd (cb p r st) = None) \<Longrightarrow> walk_names n cb p xs st = Some (st', e) \<Longrightarrow> e = None"
proof (induction n cb p i st and n cb p xs st arbitrary: st' e and st' e rule: walk_walk_names.induct)
  case (1 n cb p b st)
  then show ?case by (metis option.inject snd_conv walk.simps(1))
next
  case (2 cb p st)
  then show ?case by simp
next
  case (3 n cb p st)
  obtain st1 e1 where cb: "cb p (Inr Dir) st = (st1, e1)" by fastforce
  with "3.prems"(1) have "e1 = None" by (metis snd_conv)
  with cb 3 show ?case by (simp add: Let_def)
next
  case (4 n cb p st)
  then show ?case by simp
next
  case (5 n cb p x xs st)
  show ?case
  proof (cases "os_Stat (fst st) (Join [p, x])")
    case (Inl e1)
    obtain st1 where cb: "cb (Join [p, x]) (Inl e1) st = (st1, None)"
      using "5.prems"(1) by (metis prod.collapse)
    show ?thesis
      by (rule "5.IH"(1) [OF refl Inl cb [symmetric] refl "5.prems"(1)])
        (use "5.prems"(2) Inl cb in \<open>simp_all add: Let_def\<close>)
  next
    case (Inr i)
    show ?thesis
    proof (cases "walk n cb (Join [p, x]) i st")
      case None
      with Inr "5.prems"(2) show ?thesis by (simp add: Let_def)
    next
      case (Some w)
      obtain st1 e1 where w: "w = (st1, e1)" by fastforce
      have e1: "e1 = None"
        by (rule "5.IH"(2) [OF refl Inr "5.prems"(1)]) (use Some w in simp_all)
      show ?thesis
        by (rule "5.IH"(3) [OF refl Inr Some w [symmetric] e1 "5.prems"(1)])
          (use "5.prems"(2) Inr Some w e1 in \<open>simp_all add: Let_def\<close>)
    qed
  qed
qed

lemma Walk_no_error:
  assumes "\<And>p r st. snd (cb p r st) = None" and "Walk cb root st = Some (st', e)"
  shows "e = None"
proof (cases "os_Stat (fst st) root")
  case (Inl e1)
  with assms(2) have "cb root (Inl e1) st = (st', e)"
    by (simp add: Walk_def)
  with assms(1) show ?thesis by (metis snd_conv)
next
  case (Inr i)
  with assms(2) have "walk (walk_fuel (fst st)) cb root i st = Some (st', e)"
    by (simp add: Walk_def)
  then show ?thesis
    by (rule walk_no_error(1) [OF assms(1)])
qed

section \<open>Callbacks that only read\<close>

text \<open>The entries a walk meets when nothing changes, directories before their contents.\<close>

fun visits :: "nat \<Rightarrow> fs \<Rightarrow> string \<Rightarrow> inode \<Rightarrow> (string \<times> inode) list" where
  "visits n fs p (File b) = [(p, File b)]"
| "visits 0 fs p Dir = []"
| "visits (Suc n) fs p Dir =
     (p, Dir) # concat (map (\<lambda>x. case fs_get fs (path_of (Join [p, x])) of
                                   None \<Rightarrow> []
                                 | Some i \<Rightarrow> visits n fs (Join [p, x]) i)
                            (children fs (path_of p)))"

definition entry_of :: "string \<times> inode \<Rightarrow> path \<times> inode" where
  "entry_of e = (path_of (fst e), snd e)"

lemma child_get: "fs_wf fs \<Longrightarrow> x \<in> set (children fs p) \<Longrightarrow> \<exists>i. fs_get fs (p @ [x]) = Some i"
  by (simp add: children_iff)

lemma child_norm: "fs_wf fs \<Longrightarrow> x \<in> set (children fs p) \<Longrightarrow> norm_comp x"
  by (simp add: children_iff)

lemma distinct_children:
  assumes "fs_wf fs"
  shows "distinct (children fs p)"
proof -
  have "inj_on last {q. q \<noteq> [] \<and> butlast q = p}"
    by (auto simp: inj_on_def) (metis append_butlast_last_id)
  then have "inj_on last (set (filter (\<lambda>q. q \<noteq> [] \<and> butlast q = p) (map fst fs)))"
    by (rule inj_on_subset) auto
  moreover have "distinct (filter (\<lambda>q. q \<noteq> [] \<and> butlast q = p) (map fst fs))"
    using assms by (simp add: fs_wf_def)
  ultimately show ?thesis
    unfolding children_def distinct_sort distinct_map by blast
qed

locale walk_reader =
  fixes cb :: "'a walk_fn"
    and g :: "string \<Rightarrow> inode \<Rightarrow> 'a \<Rightarrow> 'a"
  assumes reads: "cb p (Inr i) (fs, a) = ((fs, g p i a), None)"
begin

definition collect :: "(string \<times> inode) list \<Rightarrow> 'a \<Rightarrow> 'a" where
  "collect vs a = fold (\<lambda>(p, i). g p i) vs a"

lemma collect_simps [simp]:
  "collect [] a = a"
  "collect ((p, i) # vs) a = collect vs (g p i a)"
  by (simp_all add: collect_def)

lemma walk_names_reads:
  assumes "\<And>q i a. q \<noteq> [] \<Longrightarrow> \<not> is_root (path_of q) \<Longrightarrow> fs_get fs (path_of q) = Some i \<Longrightarrow>
      length (path_of q) = Suc (length (path_of p)) \<Longrightarrow>
      walk n cb q i (fs, a) = Some ((fs, collect (visits n fs q i) a), None)"
    and "fs_wf fs" and "p \<noteq> []"
  shows "set xs \<subseteq> set (children fs (path_of p)) \<Longrightarrow>
    walk_names n cb p xs (fs, a) =
      Some ((fs, collect (concat (map (\<lambda>x. case fs_get fs (path_of (Join [p, x])) of
          None \<Rightarrow> [] | Some i \<Rightarrow> visits n fs (Join [p, x]) i) xs)) a), None)"
proof (induction xs arbitrary: a)
  case Nil
  show ?case by (simp add: collect_def)
next
  case (Cons x xs)
  let ?q = "Join [p, x]"
  from Cons.prems have x: "norm_comp x" and "\<exists>i. fs_get fs (path_of p @ [x]) = Some i"
    using child_norm [OF assms(2)] child_get [OF assms(2)] by auto
  then obtain i where q: "path_of ?q = path_of p @ [x]" "?q \<noteq> []" "fs_get fs (path_of ?q) = Some i"
    using path_of_Join2 [OF assms(3) x] Join_not_Nil [OF assms(3)] by auto
  then have "walk n cb ?q i (fs, a) = Some ((fs, collect (visits n fs ?q i) a), None)"
    using norm_not_root [OF x] by (intro assms(1)) auto
  moreover have "os_Stat fs ?q = Inr i"
    using q assms(2) by (simp add: os_Stat_get)
  ultimately show ?case
    using Cons q by (simp add: Let_def collect_def)
qed

lemma walk_reads:
  "fs_wf fs \<Longrightarrow> p \<noteq> [] \<Longrightarrow> \<not> is_root (path_of p) \<Longrightarrow> fs_get fs (path_of p) = Some i \<Longrightarrow>
   fs_depth fs d \<Longrightarrow> d < length (path_of p) + n \<Longrightarrow>
   walk n cb p i (fs, a) = Some ((fs, collect (visits n fs p i) a), None)"
proof (induction n arbitrary: p i a)
  case 0
  then show ?case by (auto simp: fs_depth_def)
next
  case (Suc n)
  show ?case
  proof (cases i)
    case (File b)
    then show ?thesis by (simp add: reads collect_def)
  next
    case Dir
    have "walk_names n cb p (children fs (path_of p)) (fs, g p Dir a) =
      Some ((fs, collect (concat (map (\<lambda>x. case fs_get fs (path_of (Join [p, x])) of
          None \<Rightarrow> [] | Some i \<Rightarrow> visits n fs (Join [p, x]) i) (children fs (path_of p)))) (g p Dir a)), None)"
      using Suc.prems by (intro walk_names_reads Suc.IH) auto
    then show ?thesis
      using Dir by (simp add: reads collect_def Let_def)
  qed
qed

theorem Walk_reads:
  assumes "fs_wf fs" and "root \<noteq> []" and "\<not> is_root (path_of root)"
    and "fs_get fs (path_of root) = Some i"
  shows "Walk cb root (fs, a) = Some ((fs, collect (visits (walk_fuel fs) fs root i) a), None)"
proof -
  have "walk (walk_fuel fs) cb root i (fs, a) =
      Some ((fs, collect (visits (walk_fuel fs) fs root i) a), None)"
    using assms by (intro walk_reads [OF _ _ _ _ fs_depth_fuel]) (auto simp: walk_fuel_def)
  with assms show ?thesis
    by (simp add: Walk_def os_Stat_get)
qed

end

subsection \<open>Each entry exactly once\<close>

lemma visits_below:
  assumes "fs_wf fs" and "e \<in> set (visits n fs p i)" and "p \<noteq> []"
  shows "below (path_of p) (path_of (fst e))"
  using assms(2,3)
proof (induction n arbitrary: p i)
  case 0
  then show ?case by (cases i) auto
next
  case (Suc n)
  show ?case
  proof (cases i)
    case (File b)
    with Suc show ?thesis by simp
  next
    case Dir
    then consider "e = (p, Dir)" | x j where "x \<in> set (children fs (path_of p))"
        "e \<in> set (visits n fs (Join [p, x]) j)"
      using Suc.prems(1) by (auto split: option.splits)
    then show ?thesis
    proof cases
      case 1
      then show ?thesis by simp
    next
      case 2
      then have "path_of (Join [p, x]) = path_of p @ [x]"
        using path_of_Join2 [OF Suc.prems(2)] child_norm [OF assms(1)] by blast
      with Suc.IH [OF 2(2) Join_not_Nil [OF Suc.prems(2)]] show ?thesis
        using below_trans [OF below_append [of "path_of p" "[x]"]] by simp
    qed
  qed
qed

lemma visits_children:
  assumes "fs_wf fs" and "p \<noteq> []"
  shows "concat (map (\<lambda>x. case fs_get fs (path_of (Join [p, x])) of
             None \<Rightarrow> [] | Some i \<Rightarrow> visits n fs (Join [p, x]) i) (children fs (path_of p))) =
         concat (map (\<lambda>x. visits n fs (Join [p, x]) (the (fs_get fs (path_of p @ [x]))))
           (children fs (path_of p)))"
proof -
  have "(case fs_get fs (path_of (Join [p, x])) of
           None \<Rightarrow> [] | Some i \<Rightarrow> visits n fs (Join [p, x]) i) =
        visits n fs (Join [p, x]) (the (fs_get fs (path_of p @ [x])))"
    if "x \<in> set (children fs (path_of p))" for x
    using that path_of_Join2 [OF assms(2)] child_norm [OF assms(1)] child_get [OF assms(1)]
    by fastforce
  then show ?thesis by (simp cong: map_cong)
qed

lemma below_children:
  assumes "fs_wf fs" and "\<not> is_root p" and "fs_get fs p = Some Dir"
  shows "{(q, j). below p q \<and> fs_get fs q = Some j} =
    insert (p, Dir) (\<Union>x \<in> set (children fs p). {(q, j). below (p @ [x]) q \<and> fs_get fs q = Some j})"
    (is "?S p = insert _ (\<Union>x \<in> set ?xs. ?S (p @ [x]))")
proof (intro equalityI subsetI)
  fix e
  assume "e \<in> ?S p"
  then obtain u j where e: "e = (p @ u, j)" "fs_get fs (p @ u) = Some j"
    by (auto simp: below_iff)
  show "e \<in> insert (p, Dir) (\<Union>x \<in> set ?xs. ?S (p @ [x]))"
  proof (cases u)
    case Nil
    with e assms(3) show ?thesis by simp
  next
    case (Cons x us)
    have "norm_comp x"
      using e Cons assms(2) by (intro fs_wf_comp [OF assms(1), of p x us j]) (auto simp: is_root_def)
    moreover have "fs_get fs (p @ [x]) \<noteq> None"
      using e Cons fs_wf_prefix [OF assms(1), of "p @ [x]" us j] by (cases us) auto
    moreover have "below (p @ [x]) (p @ u)"
      using Cons below_append [of "p @ [x]" us] by simp
    ultimately show ?thesis
      using e children_iff [OF assms(1)] by auto
  qed
next
  fix e
  assume "e \<in> insert (p, Dir) (\<Union>x \<in> set ?xs. ?S (p @ [x]))"
  then show "e \<in> ?S p"
    using assms(3) below_trans [OF below_append] by auto
qed

lemma visits_set:
  assumes "fs_wf fs"
  shows "p \<noteq> [] \<Longrightarrow> \<not> is_root (path_of p) \<Longrightarrow> fs_get fs (path_of p) = Some i \<Longrightarrow>
   fs_depth fs d \<Longrightarrow> d < length (path_of p) + n \<Longrightarrow>
   entry_of ` set (visits n fs p i) = {(q, j). below (path_of p) q \<and> fs_get fs q = Some j}"
proof (induction n arbitrary: p i)
  case 0
  then show ?case by (auto simp: fs_depth_def)
next
  case (Suc n)
  let ?S = "\<lambda>p. {(q, j). below p q \<and> fs_get fs q = Some j}"
  show ?case
  proof (cases i)
    case (File b)
    have "q = path_of p \<and> j = File b" if "below (path_of p) q" "fs_get fs q = Some j" for q j
      using that fs_wf_prefix [OF assms, of "path_of p" _ j] Suc.prems File
      by (fastforce simp: below_iff)
    with File Suc.prems show ?thesis by (auto simp: entry_of_def)
  next
    case Dir
    let ?xs = "children fs (path_of p)"
    have sub: "entry_of ` set (visits n fs (Join [p, x]) (the (fs_get fs (path_of p @ [x])))) =
        ?S (path_of p @ [x])" if "x \<in> set ?xs" for x
    proof -
      from that have x: "norm_comp x" "\<exists>j. fs_get fs (path_of p @ [x]) = Some j"
        using child_norm [OF assms] child_get [OF assms] by auto
      note path_of_Join2 [OF Suc.prems(1) x(1)] Join_not_Nil [OF Suc.prems(1)]
      with x Suc.prems norm_not_root [OF x(1)] show ?thesis
        using Suc.IH [of "Join [p, x]" "the (fs_get fs (path_of p @ [x]))"] by auto
    qed
    have "entry_of ` set (visits (Suc n) fs p Dir) =
      insert (path_of p, Dir) (\<Union>x \<in> set ?xs.
        entry_of ` set (visits n fs (Join [p, x]) (the (fs_get fs (path_of p @ [x])))))"
      by (simp add: visits_children [OF assms Suc.prems(1)] image_UN) (simp add: entry_of_def)
    also have "\<dots> = ?S (path_of p)"
      using sub below_children [OF assms Suc.prems(2)] Suc.prems(3) Dir by simp
    finally show ?thesis using Dir by simp
  qed
qed

lemma visits_distinct:
  assumes "fs_wf fs"
  shows "p \<noteq> [] \<Longrightarrow> distinct (map (path_of \<circ> fst) (visits n fs p i))"
proof (induction n arbitrary: p i)
  case 0
  then show ?case by (cases i) auto
next
  case (Suc n)
  show ?case
  proof (cases i)
    case (File b)
    then show ?thesis by simp
  next
    case Dir
    let ?xs = "children fs (path_of p)"
    let ?v = "\<lambda>x. visits n fs (Join [p, x]) (the (fs_get fs (path_of p @ [x])))"
    have under: "below (path_of p @ [x]) q" if "q \<in> set (map (path_of \<circ> fst) (?v x))" "x \<in> set ?xs" for q x
      using that visits_below [OF assms _ Join_not_Nil [OF Suc.prems]]
        path_of_Join2 [OF Suc.prems] child_norm [OF assms] by fastforce
    have "distinct (concat (map (\<lambda>x. map (path_of \<circ> fst) (?v x)) xs)) \<and>
        path_of p \<notin> set (concat (map (\<lambda>x. map (path_of \<circ> fst) (?v x)) xs))"
      if "distinct xs" "set xs \<subseteq> set ?xs" for xs
      using that
    proof (induction xs)
      case Nil
      show ?case by simp
    next
      case (Cons x xs)
      have "distinct (map (path_of \<circ> fst) (?v x))"
        by (rule Suc.IH) (rule Join_not_Nil [OF Suc.prems])
      moreover have "q \<notin> set (map (path_of \<circ> fst) (?v y))"
        if "q \<in> set (map (path_of \<circ> fst) (?v x))" "y \<in> set xs" for q y
      proof
        assume "q \<in> set (map (path_of \<circ> fst) (?v y))"
        with that Cons.prems have "below (path_of p @ [x]) q" "below (path_of p @ [y]) q"
          using under by (meson list.set_intros subsetD)+
        then have "x = y" by (auto simp: below_iff)
        with that Cons.prems show False by simp
      qed
      moreover have "path_of p \<notin> set (map (path_of \<circ> fst) (?v x))"
        using under [of "path_of p" x] Cons.prems by (auto simp: below_iff)
      moreover have "distinct (concat (map (\<lambda>x. map (path_of \<circ> fst) (?v x)) xs)) \<and>
          path_of p \<notin> set (concat (map (\<lambda>x. map (path_of \<circ> fst) (?v x)) xs))"
        using Cons by (intro Cons.IH) auto
      ultimately show ?case
        by (simp only: list.map concat.simps distinct_append set_append Un_iff) auto
    qed
    from this [OF distinct_children [OF assms] subset_refl] show ?thesis
      using Dir visits_children [OF assms Suc.prems] by (simp add: map_concat comp_def)
  qed
qed

text \<open>So the visited entries are, as a multiset, the entries of the tree below the root.\<close>

lemma visits_perm:
  assumes "fs_wf fs" and "p \<noteq> []" and "\<not> is_root (path_of p)" and "fs_get fs (path_of p) = Some i"
  shows "mset (map entry_of (visits (walk_fuel fs) fs p i)) = mset (filter (\<lambda>e. below (path_of p) (fst e)) fs)"
proof -
  have "map fst (map entry_of vs) = map (path_of \<circ> fst) vs" for vs
    by (simp add: entry_of_def)
  then have 1: "distinct (map entry_of (visits (walk_fuel fs) fs p i))"
    using visits_distinct [OF assms(1,2)] by (metis distinct_map)
  have 2: "distinct (filter (\<lambda>e. below (path_of p) (fst e)) fs)"
    using assms(1) by (simp add: fs_wf_def distinct_map)
  have "\<not> is_root q" if "below (path_of p) q" for q
    using that assms(3) by (auto simp: below_iff is_root_def append_eq_Cons_conv)
  then have "set (filter (\<lambda>e. below (path_of p) (fst e)) fs) =
        {(q, j). below (path_of p) q \<and> fs_get fs q = Some j}"
    using assms(1) by (auto simp: fs_get_def fs_wf_def)
  also have "\<dots> = set (map entry_of (visits (walk_fuel fs) fs p i))"
    using visits_set [OF assms fs_depth_fuel, of "walk_fuel fs"] by (auto simp: walk_fuel_def)
  finally show ?thesis
    using set_eq_iff_mset_eq_distinct [OF 2 1] by (simp only:)
qed

end
