(* ===== verification/Aes.thy ===== *)
theory Aes
  imports Prelude
begin

text \<open>
  The cipher primitives of the Go standard library that PeerVault calls: \<open>crypto/aes\<close> (FIPS 197,
  encryption direction only, which is all the counter mode needs) and the counter-mode stream of
  \<open>crypto/cipher\<close>.  A \<open>cipher.Stream\<close> value is the block cipher, the initial counter and the number
  of key-stream bytes already used, so that splitting the data over several calls of \<open>XORKeyStream\<close>
  is visible in the model.
\<close>

section \<open>The block cipher\<close>

definition sbox :: "byte list" where
  "sbox = [
     99, 124, 119, 123, 242, 107, 111, 197, 48, 1, 103, 43, 254, 215, 171, 118, 202, 130,
     201, 125, 250, 89, 71, 240, 173, 212, 162, 175, 156, 164, 114, 192, 183, 253, 147, 38,
     54, 63, 247, 204, 52, 165, 229, 241, 113, 216, 49, 21, 4, 199, 35, 195, 24, 150,
     5, 154, 7, 18, 128, 226, 235, 39, 178, 117, 9, 131, 44, 26, 27, 110, 90, 160,
     82, 59, 214, 179, 41, 227, 47, 132, 83, 209, 0, 237, 32, 252, 177, 91, 106, 203,
     190, 57, 74, 76, 88, 207, 208, 239, 170, 251, 67, 77, 51, 133, 69, 249, 2, 127,
     80, 60, 159, 168, 81, 163, 64, 143, 146, 157, 56, 245, 188, 182, 218, 33, 16, 255,
     243, 210, 205, 12, 19, 236, 95, 151, 68, 23, 196, 167, 126, 61, 100, 93, 25, 115,
     96, 129, 79, 220, 34, 42, 144, 136, 70, 238, 184, 20, 222, 94, 11, 219, 224, 50,
     58, 10, 73, 6, 36, 92, 194, 211, 172, 98, 145, 149, 228, 121, 231, 200, 55, 109,
     141, 213, 78, 169, 108, 86, 244, 234, 101, 122, 174, 8, 186, 120, 37, 46, 28, 166,
     180, 198, 232, 221, 116, 31, 75, 189, 139, 138, 112, 62, 181, 102, 72, 3, 246, 14,
     97, 53, 87, 185, 134, 193, 29, 158, 225, 248, 152, 17, 105, 217, 142, 148, 155, 30,
     135, 233, 206, 85, 40, 223, 140, 161, 137, 13, 191, 230, 66, 104, 65, 153, 45, 15,
     176, 84, 187, 22]"

definition sub_byte :: "byte \<Rightarrow> byte" where
  "sub_byte b = sbox ! unat b"

definition xtime :: "byte \<Rightarrow> byte" where
  "xtime b = push_bit 1 b XOR (if bit b 7 then 0x1b else 0)"

definition xor_bytes :: "bytes \<Rightarrow> bytes \<Rightarrow> bytes" where
  "xor_bytes a b = map2 (XOR) a b"

fun rot_word :: "bytes \<Rightarrow> bytes" where
  "rot_word [] = []"
| "rot_word (a # w) = w @ [a]"

definition xor_head :: "byte \<Rightarrow> bytes \<Rightarrow> bytes" where
  "xor_head c w = xor_bytes w (c # replicate (length w - 1) 0)"

text \<open>
  Key expansion: \<open>i\<close> is the index of the next word, \<open>ws\<close> the words so far, \<open>n\<close> how many are still
  to be made and \<open>rc\<close> the current round constant.
\<close>

fun key_words :: "nat \<Rightarrow> nat \<Rightarrow> nat \<Rightarrow> byte \<Rightarrow> bytes list \<Rightarrow> bytes list" where
  "key_words nk 0 i rc ws = ws"
| "key_words nk (Suc n) i rc ws =
     (let t = last ws;
          t' = (if i mod nk = 0 then xor_head rc (map sub_byte (rot_word t))
                else if nk > 6 \<and> i mod nk = 4 then map sub_byte t
                else t);
          rc' = (if i mod nk = 0 then xtime rc else rc)
      in key_words nk n (Suc i) rc' (ws @ [xor_bytes (ws ! (i - nk)) t']))"

fun chunks4 :: "bytes \<Rightarrow> bytes list" where
  "chunks4 (a # b # c # d # r) = [a, b, c, d] # chunks4 r"
| "chunks4 _ = []"

definition expand_key :: "bytes \<Rightarrow> bytes list" where
  "expand_key key =
     (let nk = length key div 4
      in key_words nk (4 * (nk + 7) - nk) nk 1 (chunks4 key))"

text \<open>The state is 16 bytes, column by column.\<close>

definition shift_rows :: "bytes \<Rightarrow> bytes" where
  "shift_rows s = map (\<lambda>i. s ! i) [0, 5, 10, 15, 4, 9, 14, 3, 8, 13, 2, 7, 12, 1, 6, 11]"

fun mix_columns :: "bytes \<Rightarrow> bytes" where
  "mix_columns (a # b # c # d # r) =
     [xtime a XOR xtime b XOR b XOR c XOR d,
      a XOR xtime b XOR xtime c XOR c XOR d,
      a XOR b XOR xtime c XOR xtime d XOR d,
      xtime a XOR a XOR b XOR c XOR xtime d] @ mix_columns r"
| "mix_columns _ = []"

fun aes_rounds :: "bytes list \<Rightarrow> bytes \<Rightarrow> bytes" where
  "aes_rounds [] s = s"
| "aes_rounds [rk] s = xor_bytes (shift_rows (map sub_byte s)) rk"
| "aes_rounds (rk # rks) s =
     aes_rounds rks (xor_bytes (mix_columns (shift_rows (map sub_byte s))) rk)"

fun round_keys :: "bytes list \<Rightarrow> bytes list" where
  "round_keys (a # b # c # d # r) = (a @ b @ c @ d) # round_keys r"
| "round_keys _ = []"

definition aes_encrypt_block :: "bytes \<Rightarrow> bytes \<Rightarrow> bytes" where
  "aes_encrypt_block key s =
     (case round_keys (expand_key key) of
        [] \<Rightarrow> s
      | rk # rks \<Rightarrow> aes_rounds rks (xor_bytes s rk))"

definition aes_block_size :: nat where
  "aes_block_size = 16"

text \<open>\<open>aes.NewCipher\<close>: the block cipher of a 16, 24 or 32 byte key, any other length is an error.\<close>

definition NewCipher :: "bytes \<Rightarrow> (bytes \<Rightarrow> bytes) result" where
  "NewCipher key =
     (if length key = 16 \<or> length key = 24 \<or> length key = 32
      then Inr (aes_encrypt_block key)
      else Inl (KeySizeError (length key)))"

section \<open>Counter mode\<close>

definition word_of_iv :: "bytes \<Rightarrow> 128 word" where
  "word_of_iv iv = foldl (\<lambda>w b. push_bit 8 w OR ucast b) 0 iv"

definition iv_of_word :: "128 word \<Rightarrow> bytes" where
  "iv_of_word w = map (\<lambda>i. ucast (drop_bit i w))
     [120, 112, 104, 96, 88, 80, 72, 64, 56, 48, 40, 32, 24, 16, 8, 0]"

record cstream =
  cs_block :: "bytes \<Rightarrow> bytes"
  cs_iv :: bytes
  cs_used :: nat

definition NewCTR :: "(bytes \<Rightarrow> bytes) \<Rightarrow> bytes \<Rightarrow> cstream" where
  "NewCTR block iv = \<lparr>cs_block = block, cs_iv = iv, cs_used = 0\<rparr>"

text \<open>Byte \<open>i\<close> of the key stream: byte \<open>i mod 16\<close> of the encrypted counter \<open>iv + i div 16\<close>.\<close>

definition keystream :: "cstream \<Rightarrow> nat \<Rightarrow> byte" where
  "keystream st i =
     cs_block st (iv_of_word (word_of_iv (cs_iv st) + word_of_nat (i div 16))) ! (i mod 16)"

definition XORKeyStream :: "cstream \<Rightarrow> bytes \<Rightarrow> cstream \<times> bytes" where
  "XORKeyStream st src =
     (st\<lparr>cs_used := cs_used st + length src\<rparr>,
      map2 (\<lambda>i b. b XOR keystream st i) [cs_used st ..< cs_used st + length src] src)"

lemma keystream_used [simp]: "keystream (st\<lparr>cs_used := n\<rparr>) = keystream st"
  by (simp add: keystream_def fun_eq_iff)

lemma length_XORKeyStream [simp]: "length (snd (XORKeyStream st src)) = length src"
  by (simp add: XORKeyStream_def)

text \<open>Two calls on the parts of a buffer do what one call on the whole buffer does.\<close>

lemma XORKeyStream_append:
  "XORKeyStream st (a @ b) =
     (case XORKeyStream st a of (st', x) \<Rightarrow>
      case XORKeyStream st' b of (st'', y) \<Rightarrow> (st'', x @ y))"
proof -
  have "[cs_used st ..< cs_used st + (length a + length b)] =
        [cs_used st ..< cs_used st + length a] @
        [cs_used st + length a ..< cs_used st + (length a + length b)]"
    by (metis add.assoc le_add1 upt_add_eq_append)
  then show ?thesis
    by (simp add: XORKeyStream_def add.assoc)
qed

text \<open>The key stream cancels itself.\<close>

lemma map2_xor_cancel:
  "length is = length xs \<Longrightarrow>
   map2 (\<lambda>i b. b XOR f i) is (map2 (\<lambda>i b. b XOR (f i :: byte)) is xs) = xs"
  by (induction "is" xs rule: list_induct2) (simp_all add: xor.assoc)

lemma XORKeyStream_involution:
  "snd (XORKeyStream st (snd (XORKeyStream st src))) = src"
  by (simp add: XORKeyStream_def map2_xor_cancel)

end
