(* ===== verification/Crypto.thy ===== *)
theory Crypto
  imports GoIO GoStrings Sha256 Aes
begin

text \<open>
  \<open>internal/crypto/crypto.go\<close>: node identifiers, key hashing and the authenticated file format
  HMAC (32 bytes), IV (16 bytes), ciphertext.  Randomness is an argument: \<open>None\<close> when
  \<open>crypto/rand\<close> fails, otherwise the stream of random bytes that the call reads.
\<close>

section \<open>Identifiers and key hashes\<close>

type_synonym entropy = "(nat \<Rightarrow> byte) option"

definition rand_read :: "entropy \<Rightarrow> nat \<Rightarrow> bytes result" where
  "rand_read rnd n = (case rnd of None \<Rightarrow> Inl EntropyError | Some f \<Rightarrow> Inr (map f [0..<n]))"

definition GenerateID :: "entropy \<Rightarrow> string result" where
  "GenerateID rnd =
     (case rand_read rnd 32 of Inl e \<Rightarrow> Inl e | Inr buf \<Rightarrow> Inr (EncodeToString buf))"

definition HashKey :: "string \<Rightarrow> string" where
  "HashKey key = EncodeToString (Sum256 (str_bytes key))"

definition NewEncryptionKey :: "entropy \<Rightarrow> bytes result" where
  "NewEncryptionKey rnd = rand_read rnd 32"

section \<open>Streaming through the cipher\<close>

text \<open>
  \<open>copyStream\<close>: read up to 32 KiB, encrypt what was read, write it, until \<open>io.EOF\<close>.  The bytes that
  come together with an error are still written.
\<close>

function copyStream :: "cstream \<Rightarrow> nat \<Rightarrow> reader \<Rightarrow> writer \<Rightarrow> writer \<times> nat result" where
  "copyStream st nw src dst =
     (case rd_read (32 * 1024) src of (b, s, src') \<Rightarrow>
      case (if b \<noteq> [] then
              (case XORKeyStream st b of (st', x) \<Rightarrow>
               case wr_write dst x of (dst', res) \<Rightarrow> (st', dst', res))
            else (st, dst, Inr 0)) of
        (st', dst', Inl e) \<Rightarrow> (dst', Inl e)
      | (st', dst', Inr nn) \<Rightarrow>
         (case s of
            REof \<Rightarrow> (dst', Inr (nw + nn))
          | RErr e \<Rightarrow> (dst', Inl e)
          | ROk \<Rightarrow> copyStream st' (nw + nn) src' dst'))"
  by pat_completeness auto
termination
  by (relation "measure (\<lambda>(st, nw, src, dst). rd_size src)") (auto intro: rd_read_dec)

declare copyStream.simps [simp del]

definition hmacKey :: "bytes \<Rightarrow> bytes" where
  "hmacKey key = Sum256 (key @ str_bytes ''peervault-hmac-v1'')"

definition hmac_failed :: error where
  "hmac_failed = Errorf ''HMAC verification failed: ciphertext is corrupted or wrong key used'' []"

definition CopyDecrypt :: "bytes \<Rightarrow> reader \<Rightarrow> writer \<Rightarrow> writer \<times> nat result" where
  "CopyDecrypt key src dst =
     (case NewCipher key of
        Inl e \<Rightarrow> (dst, Inl e)
      | Inr block \<Rightarrow>
         (case ReadFull 32 src of
            (Inl e, _) \<Rightarrow> (dst, Inl e)
          | (Inr expectedMac, src1) \<Rightarrow>
             (case ReadFull aes_block_size src1 of
                (Inl e, _) \<Rightarrow> (dst, Inl e)
              | (Inr iv, src2) \<Rightarrow>
                 (case ReadAll src2 of
                    Inl e \<Rightarrow> (dst, Inl e)
                  | Inr ciphertext \<Rightarrow>
                     (let computedMac = hmac_sha256 (hmacKey key) (iv @ ciphertext)
                      in if expectedMac \<noteq> computedMac then (dst, Inl hmac_failed)
                         else wr_write dst (snd (XORKeyStream (NewCTR block iv) ciphertext)))))))"

text \<open>The three writes of \<open>CopyEncrypt\<close>; the first one that fails ends it.\<close>

fun write_all :: "writer \<Rightarrow> bytes list \<Rightarrow> writer \<times> unit result" where
  "write_all w [] = (w, Inr ())"
| "write_all w (b # bs) =
     (case wr_write w b of (w', Inl e) \<Rightarrow> (w', Inl e) | (w', Inr _) \<Rightarrow> write_all w' bs)"

definition CopyEncrypt :: "bytes \<Rightarrow> entropy \<Rightarrow> reader \<Rightarrow> writer \<Rightarrow> writer \<times> nat result" where
  "CopyEncrypt key rnd src dst =
     (case NewCipher key of
        Inl e \<Rightarrow> (dst, Inl e)
      | Inr block \<Rightarrow>
         (case rand_read rnd aes_block_size of
            Inl e \<Rightarrow> (dst, Inl e)
          | Inr iv \<Rightarrow>
             (case copyStream (NewCTR block iv) 0 src new_buffer of
                (_, Inl e) \<Rightarrow> (dst, Inl e)
              | (ciphertextBuf, Inr _) \<Rightarrow>
                 (let ciphertext = w_buf ciphertextBuf;
                      mac = hmac_sha256 (hmacKey key) (iv @ ciphertext)
                  in case write_all dst [mac, iv, ciphertext] of
                       (dst', Inl e) \<Rightarrow> (dst', Inl e)
                     | (dst', Inr _) \<Rightarrow> (dst', Inr (length mac + length iv + length ciphertext))))))"

section \<open>The stream is transparent to chunking\<close>

lemma copyStream_drain:
  assumes "w_err dst = None"
  shows "copyStream st nw src dst =
    (case drain src of (d, e) \<Rightarrow>
      (dst\<lparr>w_buf := w_buf dst @ snd (XORKeyStream st d)\<rparr>,
       case e of None \<Rightarrow> Inr (nw + length d) | Some e \<Rightarrow> Inl e))"
  using assms
proof (induction st nw src dst rule: copyStream.induct)
  case (1 st nw src dst)
  obtain b s src' where rd: "rd_read (32 * 1024) src = (b, s, src')"
    by (cases "rd_read (32 * 1024) src") auto
  let ?st = "fst (XORKeyStream st b)"
  let ?dst = "dst\<lparr>w_buf := w_buf dst @ snd (XORKeyStream st b)\<rparr>"
  have empty: "XORKeyStream st [] = (st, [])"
    by (simp add: XORKeyStream_def)
  have step: "(if b \<noteq> [] then
              (case XORKeyStream st b of (st', x) \<Rightarrow>
               case wr_write dst x of (dst', res) \<Rightarrow> (st', dst', res))
            else (st, dst, Inr 0)) = (?st, ?dst, Inr (length b))"
    using "1.prems" empty length_XORKeyStream [of st b]
    by (cases "XORKeyStream st b") (auto simp: wr_write_def)
  have eq: "copyStream st nw src dst =
     (case s of
        REof \<Rightarrow> (?dst, Inr (nw + length b))
      | RErr e \<Rightarrow> (?dst, Inl e)
      | ROk \<Rightarrow> copyStream ?st (nw + length b) src' ?dst)"
    by (subst copyStream.simps) (simp only: rd step prod.case sum.case)
  have d: "drain src = (case s of ROk \<Rightarrow> (case drain src' of (bs, e) \<Rightarrow> (b @ bs, e))
    | REof \<Rightarrow> (b, None) | RErr e \<Rightarrow> (b, Some e))"
    using drain_rd_read [of src "32 * 1024"] rd by simp
  show ?case
  proof (cases s)
    case ROk
    have "copyStream ?st (nw + length b) src' ?dst =
      (case drain src' of (d, e) \<Rightarrow>
        (?dst\<lparr>w_buf := w_buf ?dst @ snd (XORKeyStream ?st d)\<rparr>,
         case e of None \<Rightarrow> Inr (nw + length b + length d) | Some e \<Rightarrow> Inl e))"
      using "1.prems" by (intro "1.IH" [OF rd [symmetric] refl step [symmetric] refl refl ROk]) simp
    moreover have "snd (XORKeyStream st (b @ y)) = snd (XORKeyStream st b) @ snd (XORKeyStream ?st y)" for y
      by (simp add: XORKeyStream_append split: prod.splits)
    ultimately show ?thesis
      using ROk d eq by (simp split: prod.splits option.splits)
  qed (use d eq in simp_all)
qed

section \<open>The file format\<close>

text \<open>What the format is: tag, IV and ciphertext, and the check a reader has to make.\<close>

definition valid_key :: "bytes \<Rightarrow> bool" where
  "valid_key key \<longleftrightarrow> length key = 16 \<or> length key = 24 \<or> length key = 32"

definition ctr_crypt :: "bytes \<Rightarrow> bytes \<Rightarrow> bytes \<Rightarrow> bytes" where
  "ctr_crypt key iv d = snd (XORKeyStream (NewCTR (aes_encrypt_block key) iv) d)"

definition tag :: "bytes \<Rightarrow> bytes \<Rightarrow> bytes \<Rightarrow> bytes" where
  "tag key iv ct = hmac_sha256 (hmacKey key) (iv @ ct)"

definition seal :: "bytes \<Rightarrow> bytes \<Rightarrow> bytes \<Rightarrow> bytes" where
  "seal key iv d = tag key iv (ctr_crypt key iv d) @ iv @ ctr_crypt key iv d"

definition unseal :: "bytes \<Rightarrow> bytes \<Rightarrow> bytes option" where
  "unseal key c =
     (let mac = take 32 c; iv = take 16 (drop 32 c); ct = drop 48 c
      in if 48 \<le> length c \<and> mac = tag key iv ct then Some (ctr_crypt key iv ct) else None)"

lemma length_ctr_crypt [simp]: "length (ctr_crypt key iv d) = length d"
  by (simp add: ctr_crypt_def)

lemma ctr_crypt_involution [simp]: "ctr_crypt key iv (ctr_crypt key iv d) = d"
  by (simp add: ctr_crypt_def XORKeyStream_involution)

lemma length_tag [simp]: "length (tag key iv ct) = 32"
  by (simp add: tag_def)

lemma length_seal [simp]: "length (seal key iv d) = 32 + length iv + length d"
  by (simp add: seal_def)

lemma unseal_seal: "length iv = 16 \<Longrightarrow> unseal key (seal key iv d) = Some d"
  by (simp add: unseal_def seal_def)

definition fresh_iv :: "(nat \<Rightarrow> byte) \<Rightarrow> bytes" where
  "fresh_iv f = map f [0..<16]"

lemma length_fresh_iv [simp]: "length (fresh_iv f) = 16"
  by (simp add: fresh_iv_def)

interpretation sealed: codec "seal key (fresh_iv f)" "unseal key" "\<lambda>_. True" for key f
  by unfold_locales (simp add: unseal_seal)

lemma NewCipher_valid: "valid_key key \<Longrightarrow> NewCipher key = Inr (aes_encrypt_block key)"
  by (auto simp: valid_key_def NewCipher_def)

lemma NewCipher_invalid: "\<not> valid_key key \<Longrightarrow> NewCipher key = Inl (KeySizeError (length key))"
  by (auto simp: valid_key_def NewCipher_def)

text \<open>\<open>CopyEncrypt\<close> appends the sealed data; a read error of the source leaves the target untouched.\<close>

lemma CopyEncrypt_eq:
  assumes "valid_key key" and "w_err dst = None"
  shows "CopyEncrypt key (Some f) src dst =
    (case drain src of
       (d, None) \<Rightarrow> (dst\<lparr>w_buf := w_buf dst @ seal key (fresh_iv f) d\<rparr>, Inr (48 + length d))
     | (d, Some e) \<Rightarrow> (dst, Inl e))"
  using assms
  by (simp add: CopyEncrypt_def NewCipher_valid rand_read_def copyStream_drain new_buffer_def
      seal_def tag_def ctr_crypt_def fresh_iv_def aes_block_size_def wr_write_def Let_def
      split: prod.splits option.splits)

definition short_error :: "nat \<Rightarrow> error" where
  "short_error n = (if n = 0 \<or> n = 32 then IoEOF else UnexpectedEOF)"

text \<open>
  \<open>CopyDecrypt\<close> writes the plain text of a source that unseals, and nothing otherwise: a short
  source and a wrong tag are the two errors.
\<close>

lemma CopyDecrypt_eq:
  assumes "valid_key key" and "w_err dst = None" and "drain src = (c, None)"
  shows "CopyDecrypt key src dst =
    (case unseal key c of
       Some d \<Rightarrow> (dst\<lparr>w_buf := w_buf dst @ d\<rparr>, Inr (length d))
     | None \<Rightarrow> (dst, Inl (if length c < 48 then short_error (length c) else hmac_failed)))"
proof (cases "length c < 32")
  case True
  with assms show ?thesis
    using ReadFull_short [OF assms(3), of 32]
    by (auto simp: CopyDecrypt_def NewCipher_valid unseal_def short_error_def)
next
  case False
  then obtain r1 where r1: "ReadFull 32 src = (Inr (take 32 c), r1)" "drain r1 = (drop 32 c, None)"
    using ReadFull_ok [OF assms(3), of 32] by auto
  show ?thesis
  proof (cases "length c < 48")
    case True
    with False have "length (drop 32 c) < 16" by simp
    then obtain r2 where "ReadFull 16 r1 = (Inl (short_error (length c)), r2)"
      using ReadFull_short [OF r1(2), of 16] False by (cases "c = []") (auto simp: short_error_def)
    with True r1 assms(1) show ?thesis
      by (simp add: CopyDecrypt_def NewCipher_valid unseal_def aes_block_size_def)
  next
    case long: False
    then have "16 \<le> length (drop 32 c)" by simp
    then obtain r2 where "ReadFull 16 r1 = (Inr (take 16 (drop 32 c)), r2)"
      "drain r2 = (drop 48 c, None)"
      using ReadFull_ok [OF r1(2), of 16] by auto
    with long r1 assms show ?thesis
      by (simp add: CopyDecrypt_def NewCipher_valid unseal_def aes_block_size_def ReadAll_def
          wr_write_def tag_def Let_def ctr_crypt_def [symmetric])
  qed
qed

text \<open>Whatever goes wrong, the target has received nothing: the tag is checked before any output.\<close>

lemma CopyDecrypt_error_keeps: "CopyDecrypt key src dst = (dst', Inl e) \<Longrightarrow> dst' = dst"
  by (auto simp: CopyDecrypt_def wr_write_def Let_def split: sum.splits prod.splits if_splits
      option.splits)

end
