(* ===== verification/Store.thy ===== *)
theory Store
  imports FileWalk Crypto
begin

text \<open>
  \<open>internal/storage/store.go\<close>: the content store.  The file system is passed explicitly; the JSON
  package is a parameter (\<open>json\<close>): how a key map is written, and how reading a document changes the
  current map.
\<close>

section \<open>Paths of keys\<close>

record PathKey =
  PathName :: string
  Filename :: string

definition CASPathTransformFunc :: "string \<Rightarrow> PathKey" where
  "CASPathTransformFunc key =
     (let hash = Sum256 (str_bytes key);
          hashStr = EncodeToString hash;
          blocksize = 5;
          sliceLen = length hashStr div blocksize;
          paths = map (\<lambda>i. take blocksize (drop (i * blocksize) hashStr)) [0..<sliceLen]
      in \<lparr>PathName = str_join ''/'' paths, Filename = hashStr\<rparr>)"

definition FirstPathName :: "PathKey \<Rightarrow> string" where
  "FirstPathName p = (case split sep (PathName p) of [] \<Rightarrow> [] | d # _ \<Rightarrow> d)"

definition FullPath :: "PathKey \<Rightarrow> string" where
  "FullPath p = PathName p @ ''/'' @ Filename p"

definition DefaultPathTransformFunc :: "string \<Rightarrow> PathKey" where
  "DefaultPathTransformFunc key = \<lparr>PathName = key, Filename = key\<rparr>"

section \<open>The store\<close>

type_synonym keymap = "(string \<times> string) list"

text \<open>\<open>encoding/json\<close>: \<open>MarshalIndent\<close> of a key map and \<open>Unmarshal\<close> into one.\<close>

record json =
  MarshalIndent :: "keymap \<Rightarrow> bytes"
  Unmarshal :: "bytes \<Rightarrow> keymap \<Rightarrow> keymap \<times> error option"

record store =
  Root :: string
  PathTransformFunc :: "string \<Rightarrow> PathKey"
  keyMap :: keymap

record StoreOpts =
  opt_Root :: string
  opt_PathTransformFunc :: "(string \<Rightarrow> PathKey) option"

definition defaultRootFolderName :: string where
  "defaultRootFolderName = ''storage/default''"

definition metadataPath :: "store \<Rightarrow> string" where
  "metadataPath s = Join [Root s, ''metadata.json'']"

definition loadKeyMap :: "json \<Rightarrow> store \<Rightarrow> fs \<Rightarrow> store \<times> error option" where
  "loadKeyMap J s fs =
     (case os_Stat fs (metadataPath s) of
        Inl e \<Rightarrow> if is_not_exist e then (s, None)
                 else (case os_ReadFile fs (metadataPath s) of
                         Inl e' \<Rightarrow> (s, Some e')
                       | Inr data \<Rightarrow> (case Unmarshal J data (keyMap s) of
                                        (m, e') \<Rightarrow> (s\<lparr>keyMap := m\<rparr>, e')))
      | Inr _ \<Rightarrow>
         (case os_ReadFile fs (metadataPath s) of
            Inl e' \<Rightarrow> (s, Some e')
          | Inr data \<Rightarrow> (case Unmarshal J data (keyMap s) of (m, e') \<Rightarrow> (s\<lparr>keyMap := m\<rparr>, e'))))"

text \<open>\<open>NewStore\<close>: defaults for a missing root and transform; load errors are ignored.\<close>

definition NewStore :: "json \<Rightarrow> StoreOpts \<Rightarrow> fs \<Rightarrow> store" where
  "NewStore J opts fs =
     (let ptf = (case opt_PathTransformFunc opts of None \<Rightarrow> DefaultPathTransformFunc | Some f \<Rightarrow> f);
          root = (if length (opt_Root opts) = 0 then defaultRootFolderName else opt_Root opts)
      in fst (loadKeyMap J \<lparr>Root = root, PathTransformFunc = ptf, keyMap = []\<rparr> fs))"

definition ValidateNodeID :: "string \<Rightarrow> unit result" where
  "ValidateNodeID nid =
     (if nid = [] then Inl (Errorf ''nodeID cannot be empty'' [])
      else if ContainsAny nid [CHR ''/'', CHR 0x5C, CHR ''.''] then Inl (Errorf ''nodeID contains invalid characters: %q'' [nid])
      else case DecodeString nid of
        Inl e \<Rightarrow> Inl (Wrap ''nodeID must be hex: %w'' e)
      | Inr _ \<Rightarrow> Inr ())"

definition resolvePath :: "store \<Rightarrow> string \<Rightarrow> string \<Rightarrow> string result" where
  "resolvePath s nid subpath =
     (case ValidateNodeID nid of
        Inl e \<Rightarrow> Inl e
      | Inr _ \<Rightarrow>
         (let cleanRoot = Clean (Root s);
              resolved = Join [cleanRoot, nid, subpath];
              prefix = cleanRoot @ [sep]
          in if \<not> HasPrefix resolved prefix \<and> resolved \<noteq> cleanRoot
             then Inl (Errorf ''path escape detected: %s'' [resolved])
             else Inr resolved))"

definition store_Has :: "store \<Rightarrow> fs \<Rightarrow> string \<Rightarrow> string \<Rightarrow> bool" where
  "store_Has s fs nid key =
     (case resolvePath s nid (FullPath (PathTransformFunc s key)) of
        Inl _ \<Rightarrow> False
      | Inr p \<Rightarrow> (case os_Stat fs p of Inl e \<Rightarrow> \<not> is_not_exist e | Inr _ \<Rightarrow> True))"

text \<open>Operations on the disk return the new file system and their error.\<close>

definition store_Clear :: "store \<Rightarrow> fs \<Rightarrow> fs \<times> error option" where
  "store_Clear s fs =
     (case os_RemoveAll fs (Root s) of Inl e \<Rightarrow> (fs, Some e) | Inr fs' \<Rightarrow> (fs', None))"

definition store_Delete :: "store \<Rightarrow> fs \<Rightarrow> string \<Rightarrow> string \<Rightarrow> fs \<times> error option" where
  "store_Delete s fs nid key =
     (case resolvePath s nid (FirstPathName (PathTransformFunc s key)) of
        Inl e \<Rightarrow> (fs, Some e)
      | Inr p \<Rightarrow> (case os_RemoveAll fs p of Inl e \<Rightarrow> (fs, Some e) | Inr fs' \<Rightarrow> (fs', None)))"

definition saveKeyMap :: "json \<Rightarrow> store \<Rightarrow> fs \<Rightarrow> fs \<times> error option" where
  "saveKeyMap J s fs =
     (case os_MkdirAll fs (Root s) of
        Inl e \<Rightarrow> (fs, Some e)
      | Inr fs1 \<Rightarrow>
         (case os_WriteFile fs1 (metadataPath s) (MarshalIndent J (keyMap s)) of
            Inl e \<Rightarrow> (fs1, Some e)
          | Inr fs2 \<Rightarrow> (fs2, None)))"

definition openFileForWriting :: "store \<Rightarrow> fs \<Rightarrow> string \<Rightarrow> string \<Rightarrow> fs \<times> string result" where
  "openFileForWriting s fs nid key =
     (let pathKey = PathTransformFunc s key
      in case resolvePath s nid (PathName pathKey) of
           Inl e \<Rightarrow> (fs, Inl e)
         | Inr dir \<Rightarrow>
            (case os_MkdirAll fs dir of
               Inl e \<Rightarrow> (fs, Inl e)
             | Inr fs1 \<Rightarrow>
                (case resolvePath s nid (FullPath pathKey) of
                   Inl e \<Rightarrow> (fs1, Inl e)
                 | Inr full \<Rightarrow>
                    (case os_Create fs1 full of
                       Inl e \<Rightarrow> (fs1, Inl e)
                     | Inr fs2 \<Rightarrow> (fs2, Inr full)))))"

text \<open>\<open>io.Copy\<close> to the open file: everything read is written, also before a read error.\<close>

definition writeStream :: "store \<Rightarrow> fs \<Rightarrow> string \<Rightarrow> string \<Rightarrow> reader \<Rightarrow> fs \<times> nat result" where
  "writeStream s fs nid key r =
     (case openFileForWriting s fs nid key of
        (fs1, Inl e) \<Rightarrow> (fs1, Inl e)
      | (fs1, Inr f) \<Rightarrow>
         (case drain r of
            (d, None) \<Rightarrow> (file_write fs1 f d, Inr (length d))
          | (d, Some e) \<Rightarrow> (file_write fs1 f d, Inl e)))"

text \<open>Remember which key a file name belongs to, in memory and on disk (errors ignored).\<close>

definition rememberKey :: "json \<Rightarrow> store \<Rightarrow> fs \<Rightarrow> string \<Rightarrow> store \<times> fs" where
  "rememberKey J s fs key =
     (let s' = s\<lparr>keyMap := AList.update (Filename (PathTransformFunc s key)) key (keyMap s)\<rparr>
      in (s', fst (saveKeyMap J s' fs)))"

definition store_Write ::
    "json \<Rightarrow> store \<Rightarrow> fs \<Rightarrow> string \<Rightarrow> string \<Rightarrow> reader \<Rightarrow> store \<times> fs \<times> nat result" where
  "store_Write J s fs nid key r =
     (case rememberKey J s fs key of (s', fs') \<Rightarrow> (s', writeStream s' fs' nid key r))"

definition store_WriteDecrypt ::
    "store \<Rightarrow> fs \<Rightarrow> bytes \<Rightarrow> string \<Rightarrow> string \<Rightarrow> reader \<Rightarrow> fs \<times> nat result" where
  "store_WriteDecrypt s fs encKey nid key r =
     (case openFileForWriting s fs nid key of
        (fs1, Inl e) \<Rightarrow> (fs1, Inl e)
      | (fs1, Inr f) \<Rightarrow>
         (case CopyDecrypt encKey r new_buffer of (w, res) \<Rightarrow> (file_write fs1 f (w_buf w), res)))"

definition store_WriteEncrypt ::
    "json \<Rightarrow> store \<Rightarrow> fs \<Rightarrow> entropy \<Rightarrow> bytes \<Rightarrow> string \<Rightarrow> string \<Rightarrow> reader \<Rightarrow> store \<times> fs \<times> nat result"
where
  "store_WriteEncrypt J s fs rnd encKey nid key r =
     (case rememberKey J s fs key of (s', fs') \<Rightarrow>
      (s', case openFileForWriting s' fs' nid key of
             (fs1, Inl e) \<Rightarrow> (fs1, Inl e)
           | (fs1, Inr f) \<Rightarrow>
              (case CopyEncrypt encKey rnd r new_buffer of
                 (w, res) \<Rightarrow> (file_write fs1 f (w_buf w), res))))"

text \<open>
  \<open>Read\<close>: the size and a reader.  A directory can be opened, but reading it fails (its size depends
  on the file system and is taken as zero).
\<close>

definition store_Read :: "store \<Rightarrow> fs \<Rightarrow> string \<Rightarrow> string \<Rightarrow> (nat \<times> reader) result" where
  "store_Read s fs nid key =
     (case resolvePath s nid (FullPath (PathTransformFunc s key)) of
        Inl e \<Rightarrow> Inl e
      | Inr p \<Rightarrow>
         (case os_Stat fs p of
            Inl e \<Rightarrow> Inl e
          | Inr (File b) \<Rightarrow> Inr (length b, bytes_reader b)
          | Inr Dir \<Rightarrow> Inr (0, [([], RErr (PathError EISDIR p))])))"

section \<open>Listing\<close>

record FileInfo =
  fi_Key :: string
  fi_Hash :: string
  fi_Size :: nat
  fi_NodeID :: string

text \<open>\<open>info.Name()\<close>: the last component.\<close>

definition base_name :: "string \<Rightarrow> string" where
  "base_name p = last (path_of p)"

text \<open>A name the map does not know is abbreviated; slicing a name of fewer than 8 bytes panics.\<close>

definition display_key :: "store \<Rightarrow> string \<Rightarrow> string go" where
  "display_key s hash =
     (case map_of (keyMap s) hash of
        Some k \<Rightarrow> Return k
      | None \<Rightarrow> if length hash < 8 then Panic ''slice bounds out of range''
                else Return (''file_'' @ take 8 hash))"

definition list_add :: "store \<Rightarrow> string \<Rightarrow> string \<Rightarrow> inode \<Rightarrow> FileInfo list go \<Rightarrow> FileInfo list go" where
  "list_add s nid p i acc =
     (case acc of
        Panic m \<Rightarrow> Panic m
      | Return files \<Rightarrow>
         (case i of
            Dir \<Rightarrow> Return files
          | File b \<Rightarrow>
             (case display_key s (base_name p) of
                Panic m \<Rightarrow> Panic m
              | Return k \<Rightarrow>
                 Return (files @ [\<lparr>fi_Key = k, fi_Hash = base_name p, fi_Size = length b,
                                   fi_NodeID = nid\<rparr>]))))"

definition list_cb :: "store \<Rightarrow> string \<Rightarrow> FileInfo list go walk_fn" where
  "list_cb s nid p r st =
     (case r of
        Inl e \<Rightarrow> (st, Some e)
      | Inr i \<Rightarrow> ((fst st, list_add s nid p i (snd st)), None))"

text \<open>\<open>List\<close>: \<open>None\<close> would be a walk that does not end.\<close>

definition store_List ::
    "store \<Rightarrow> fs \<Rightarrow> string \<Rightarrow> (FileInfo list go \<times> error option) option" where
  "store_List s fs nid =
     (case resolvePath s nid [] of
        Inl e \<Rightarrow> Some (Return [], Some e)
      | Inr nodeDir \<Rightarrow>
         (case os_Stat fs nodeDir of
            Inl e \<Rightarrow> if is_not_exist e then Some (Return [], None)
                     else map_option (\<lambda>(st, err). (snd st, err))
                            (Walk (list_cb s nid) nodeDir (fs, Return []))
          | Inr _ \<Rightarrow> map_option (\<lambda>(st, err). (snd st, err))
                       (Walk (list_cb s nid) nodeDir (fs, Return []))))"

text \<open>\<open>ListAll\<close>: the non-empty lists of all node directories; a panic of one ends it.\<close>

fun list_nodes ::
    "store \<Rightarrow> fs \<Rightarrow> (string \<times> inode option) list \<Rightarrow> (string \<times> FileInfo list) list go option" where
  "list_nodes s fs [] = Some (Return [])"
| "list_nodes s fs ((n, i) # es) =
     (if i \<noteq> Some Dir then list_nodes s fs es
      else case store_List s fs n of
        None \<Rightarrow> None
      | Some (Panic m, _) \<Rightarrow> Some (Panic m)
      | Some (Return files, Some e) \<Rightarrow> list_nodes s fs es
      | Some (Return files, None) \<Rightarrow>
         (case list_nodes s fs es of
            None \<Rightarrow> None
          | Some (Panic m) \<Rightarrow> Some (Panic m)
          | Some (Return rest) \<Rightarrow>
              Some (Return (if length files > 0 then (n, files) # rest else rest))))"

definition store_ListAll ::
    "store \<Rightarrow> fs \<Rightarrow> ((string \<times> FileInfo list) list go \<times> error option) option" where
  "store_ListAll s fs =
     (case os_Stat fs (Root s) of
        Inl e \<Rightarrow> if is_not_exist e then Some (Return [], None)
                 else (case os_ReadDir fs (Root s) of
                         Inl e' \<Rightarrow> Some (Return [], Some e')
                       | Inr es \<Rightarrow> map_option (\<lambda>r. (r, None)) (list_nodes s fs es))
      | Inr _ \<Rightarrow>
         (case os_ReadDir fs (Root s) of
            Inl e' \<Rightarrow> Some (Return [], Some e')
          | Inr es \<Rightarrow> map_option (\<lambda>r. (r, None)) (list_nodes s fs es)))"

definition GetOriginalKey :: "store \<Rightarrow> string \<Rightarrow> string option" where
  "GetOriginalKey s hash = map_of (keyMap s) hash"

definition ClearKeyMap :: "json \<Rightarrow> store \<Rightarrow> fs \<Rightarrow> store \<times> fs" where
  "ClearKeyMap J s fs = (let s' = s\<lparr>keyMap := []\<rparr> in (s', fst (saveKeyMap J s' fs)))"

section \<open>Content addresses\<close>

definition hash_blocks :: "string \<Rightarrow> string list" where
  "hash_blocks h = map (\<lambda>i. take 5 (drop (i * 5) h)) [0..<12]"

abbreviation cas_blocks :: "string \<Rightarrow> string list" where
  "cas_blocks key \<equiv> hash_blocks (HashKey key)"

definition hex_name :: "string \<Rightarrow> bool" where
  "hex_name s \<longleftrightarrow> s \<noteq> [] \<and> list_all is_hex_char s"

lemma length_HashKey [simp]: "length (HashKey key) = 64"
  by (simp add: HashKey_def)

lemma HashKey_hex: "list_all is_hex_char (HashKey key)"
  by (simp add: list_all_iff HashKey_def EncodeToString_hex)

lemma hex_char_not_sep: "is_hex_char c \<Longrightarrow> c \<noteq> sep \<and> c \<noteq> CHR ''.''"
  by (auto simp: is_hex_char_def sep_def)

lemma hex_name_norm:
  assumes "hex_name s"
  shows "norm_comp s"
proof -
  have "sep \<notin> set s" and dot: "CHR ''.'' \<notin> set s" and "s \<noteq> []"
    using assms hex_char_not_sep by (auto simp: hex_name_def list_all_iff)
  moreover have "s \<noteq> ''.''" and "s \<noteq> ''..''"
    using dot by (metis list.set_intros(1))+
  ultimately show ?thesis
    by (simp add: norm_comp_def)
qed

lemma hex_name_HashKey [simp]: "hex_name (HashKey key)"
proof -
  have "HashKey key \<noteq> []"
    using length_HashKey [of key] by (metis list.size(3) zero_neq_numeral)
  then show ?thesis
    by (simp add: hex_name_def HashKey_hex)
qed

lemma hex_name_block:
  assumes "b \<in> set (cas_blocks key)"
  shows "hex_name b \<and> length b = 5"
proof -
  obtain i where i: "i < 12" "b = take 5 (drop (i * 5) (HashKey key))"
    using assms by (auto simp: hash_blocks_def)
  then have len: "length b = 5"
    by simp
  have "set b \<subseteq> set (HashKey key)"
    unfolding i(2) by (meson set_drop_subset set_take_subset subset_trans)
  then have "list_all is_hex_char b"
    using HashKey_hex [of key] unfolding list_all_iff by blast
  with len show ?thesis
    unfolding hex_name_def by (metis list.size(3) zero_neq_numeral)
qed

lemma norm_cas_blocks [simp]: "list_all norm_comp (cas_blocks key)"
  by (simp add: list_all_iff hex_name_block hex_name_norm)

lemma length_hash_blocks [simp]: "length (hash_blocks h) = 12"
  by (simp add: hash_blocks_def)

lemma hash_blocks_not_Nil [simp]: "hash_blocks h \<noteq> []"
  by (simp add: hash_blocks_def)

lemma CAS_eq: "CASPathTransformFunc key = \<lparr>PathName = str_join [sep] (cas_blocks key), Filename = HashKey key\<rparr>"
  by (simp add: CASPathTransformFunc_def hash_blocks_def HashKey_def Let_def sep_def)

lemma split_PathName: "split sep (PathName (CASPathTransformFunc key)) = cas_blocks key"
  using norm_cas_blocks [of key]
  by (simp add: CAS_eq split_str_join list_all_iff norm_comp_def)

lemma FirstPathName_CAS: "FirstPathName (CASPathTransformFunc key) = take 5 (HashKey key)"
  by (simp add: FirstPathName_def split_PathName hash_blocks_def upt_conv_Cons)

lemma split_FullPath:
  "split sep (FullPath (CASPathTransformFunc key)) = cas_blocks key @ [HashKey key]"
proof -
  have "split sep (HashKey key) = [HashKey key]"
    using hex_name_norm [OF hex_name_HashKey [of key]] by (simp add: split_no_sep norm_comp_def)
  then show ?thesis
    using split_PathName [of key] by (simp add: FullPath_def split_append_sep CAS_eq sep_def)
qed

section \<open>Node identifiers\<close>

lemma valid_id_chars:
  assumes "ValidateNodeID nid = Inr ()"
  shows "nid \<noteq> [] \<and> CHR ''/'' \<notin> set nid \<and> CHR ''.'' \<notin> set nid"
  using assms by (auto simp: ValidateNodeID_def ContainsAny_def list_ex_iff split: if_splits)

lemma valid_id_norm: "ValidateNodeID nid = Inr () \<Longrightarrow> norm_comp nid"
  using valid_id_chars [of nid] by (auto simp: norm_comp_def sep_def)

section \<open>Where paths lead\<close>

definition good_root :: "string \<Rightarrow> bool" where
  "good_root r \<longleftrightarrow> r \<noteq> [] \<and> comps_of r \<noteq> [] \<and> list_all norm_comp (comps_of r)"

definition node_path :: "store \<Rightarrow> string \<Rightarrow> path" where
  "node_path s nid = path_of (Root s) @ [nid]"

definition file_path :: "store \<Rightarrow> string \<Rightarrow> string \<Rightarrow> path" where
  "file_path s nid key = node_path s nid @ cas_blocks key @ [HashKey key]"

definition meta_path :: "store \<Rightarrow> path" where
  "meta_path s = path_of (Root s) @ [''metadata.json'']"

text \<open>
  Below a proper root, a sub-path of proper components resolves to exactly the components one
  expects, and the escape check passes.
\<close>

lemma resolvePath_norm:
  assumes "good_root (Root s)" and "ValidateNodeID nid = Inr ()"
    and "filter (\<lambda>c. c \<noteq> []) (split sep sub) = cs" and "list_all norm_comp cs"
  shows "\<exists>p. resolvePath s nid sub = Inr p \<and> p \<noteq> [] \<and> path_of p = node_path s nid @ cs \<and>
    \<not> ends_with_dot p"
proof -
  let ?r = "is_rooted (Root s)" and ?rc = "comps_of (Root s)"
  let ?p = "comps_str ?r (?rc @ nid # cs)"
  have nid: "norm_comp nid" and snid: "split sep nid = [nid]"
    using valid_id_norm [OF assms(2)] by (simp_all add: norm_comp_def split_no_sep)
  have skip: "clean_comps ?r st (filter (\<lambda>c. c \<noteq> []) xs) = clean_comps ?r st xs" for st xs
    by (induction ?r st xs rule: clean_comps.induct) (auto split: list.splits)
  have "clean_comps ?r (rev ?rc) (concat (map (split sep) [nid, sub])) = ?rc @ nid # cs"
    using nid snid assms(3,4) skip [of "nid # rev ?rc" "split sep sub"]
    by (simp add: clean_comps_norm norm_comp_def)
  then have join: "Join [Clean (Root s), nid, sub] = ?p"
    by (simp add: Join_Clean)
  have "HasPrefix ?p (Clean (Root s) @ [sep])"
    using assms(1) comps_str_append [of ?rc "nid # cs" ?r]
    by (auto simp: HasPrefix_iff Clean_eq good_root_def)
  moreover have "cleaned ?r (?rc @ nid # cs)"
    using assms(1,4) nid by (auto simp: cleaned_def good_root_def intro: exI [of _ 0])
  moreover have "?p \<noteq> []"
    using join Join_not_Nil [of "Clean (Root s)"] by (metis Clean_not_Nil)
  moreover have "\<not> ends_with_dot ?p"
    using clean_not_dot [OF calculation(2)] by simp
  ultimately show ?thesis
    using assms(2) join
    by (simp add: resolvePath_def Let_def node_path_def path_of_eq [of "Root s"] mk_path_append [symmetric])
qed

lemma filter_nonempty_norm: "list_all norm_comp cs \<Longrightarrow> filter (\<lambda>c. c \<noteq> []) cs = cs"
  by (auto simp: filter_id_conv list_all_iff norm_comp_def)

lemma resolve_full:
  assumes "good_root (Root s)" and "ValidateNodeID nid = Inr ()"
  obtains p where "resolvePath s nid (FullPath (CASPathTransformFunc key)) = Inr p" and "p \<noteq> []"
    and "path_of p = file_path s nid key"
proof -
  have norm: "list_all norm_comp (cas_blocks key @ [HashKey key])"
    by (simp add: hex_name_norm)
  from that show ?thesis
    using resolvePath_norm [OF assms, of "FullPath (CASPathTransformFunc key)", OF _ norm]
      filter_nonempty_norm [OF norm]
    unfolding split_FullPath file_path_def by auto
qed

lemma resolve_dir:
  assumes "good_root (Root s)" and "ValidateNodeID nid = Inr ()"
  obtains p where "resolvePath s nid (PathName (CASPathTransformFunc key)) = Inr p" and "p \<noteq> []"
    and "path_of p = node_path s nid @ cas_blocks key"
  using resolvePath_norm [OF assms, of "PathName (CASPathTransformFunc key)" "cas_blocks key"]
  by (auto simp: split_PathName filter_nonempty_norm)

lemma resolve_first:
  assumes "good_root (Root s)" and "ValidateNodeID nid = Inr ()"
  obtains p where "resolvePath s nid (FirstPathName (CASPathTransformFunc key)) = Inr p" and "p \<noteq> []"
    and "path_of p = node_path s nid @ [take 5 (HashKey key)]" and "\<not> ends_with_dot p"
proof -
  have "norm_comp (take 5 (HashKey key))"
    using hex_name_block [of "take 5 (HashKey key)" key]
    by (simp add: hex_name_norm hash_blocks_def upt_conv_Cons)
  with that show ?thesis
    using resolvePath_norm [OF assms, of "take 5 (HashKey key)" "[take 5 (HashKey key)]"]
    by (auto simp: FirstPathName_CAS split_no_sep norm_comp_def)
qed

lemma resolve_node:
  assumes "good_root (Root s)" and "ValidateNodeID nid = Inr ()"
  obtains p where "resolvePath s nid [] = Inr p" and "p \<noteq> []" and "path_of p = node_path s nid"
  using resolvePath_norm [OF assms, of "[]" "[]"] by auto

section \<open>Node identifiers\<close>

lemma valid_id_iff:
  "ValidateNodeID nid = Inr () \<longleftrightarrow>
     nid \<noteq> [] \<and> even (length nid) \<and> list_all (\<lambda>c. hex_value c \<noteq> None) nid"
proof -
  have no: "hex_value (CHR ''/'') = None" "hex_value (CHR 0x5C) = None" "hex_value (CHR ''.'') = None"
    by code_simp+
  then have "\<not> ContainsAny nid [CHR ''/'', CHR 0x5C, CHR ''.'']"
    if "list_all (\<lambda>c. hex_value c \<noteq> None) nid"
    using that by (auto simp: ContainsAny_def list_all_iff list_ex_iff)
  with DecodeString_ok_iff [of nid] show ?thesis
    by (auto simp: ValidateNodeID_def split: sum.splits)
qed

lemma GenerateID_valid: "ValidateNodeID (EncodeToString bs) = Inr () \<longleftrightarrow> bs \<noteq> []"
proof -
  have "\<exists>bs'. DecodeString (EncodeToString bs) = Inr bs'" by simp
  then have "list_all (\<lambda>c. hex_value c \<noteq> None) (EncodeToString bs)"
    unfolding DecodeString_ok_iff by blast
  moreover have "EncodeToString bs = [] \<longleftrightarrow> bs = []"
    using length_EncodeToString [of bs] by (metis length_0_conv mult_eq_0_iff numeral_eq_Suc nat.distinct(1))
  ultimately show ?thesis
    by (simp add: valid_id_iff)
qed

lemma concat_blocks: "concat (map (\<lambda>i. take n (drop (i * n) h)) [0..<k]) = take (k * n) h"
  by (induction k) (simp_all add: take_add add.commute [of n])

end
