(* ===== verification/StoreFacts.thy ===== *)
theory StoreFacts
  imports Store
begin

text \<open>
  What the content store guarantees.  A well-formed store (\<open>store_inv\<close>) is a partial map from a node
  identifier and a file name (\<open>vault\<close>); every operation of \<open>store.go\<close> keeps the invariant and is
  described by its effect on that map.
\<close>

section \<open>The invariant\<close>

definition shape_ok :: "path \<Rightarrow> inode \<Rightarrow> bool" where
  "shape_ok q i =
     (case i of Dir \<Rightarrow> length q \<le> 12
      | File _ \<Rightarrow> q \<noteq> [] \<and> length (last q) = 64 \<and> q = hash_blocks (last q) @ [last q])"

abbreviation valid_id :: "string \<Rightarrow> bool" where
  "valid_id nid \<equiv> ValidateNodeID nid = Inr ()"

definition store_inv :: "store \<Rightarrow> fs \<Rightarrow> bool" where
  "store_inv s fs \<longleftrightarrow>
     fs_wf fs \<and> good_root (Root s) \<and> PathTransformFunc s = CASPathTransformFunc \<and>
     dir_route fs [] (path_of (Root s)) \<and> fs_get fs (meta_path s) \<noteq> Some Dir \<and>
     (\<forall>nid q i. valid_id nid \<longrightarrow> fs_get fs (node_path s nid @ q) = Some i \<longrightarrow> shape_ok q i)"

text \<open>The path of a file name in a node's directory, and the map the disk represents.\<close>

definition addr_path :: "store \<Rightarrow> string \<Rightarrow> string \<Rightarrow> path" where
  "addr_path s nid h = node_path s nid @ hash_blocks h @ [h]"

definition vault :: "store \<Rightarrow> fs \<Rightarrow> string \<times> string \<Rightarrow> bytes option" where
  "vault s fs a =
     (if valid_id (fst a)
      then case fs_get fs (addr_path s (fst a) (snd a)) of Some (File b) \<Rightarrow> Some b | _ \<Rightarrow> None
      else None)"

lemma file_path_addr: "file_path s nid key = addr_path s nid (HashKey key)"
  by (simp add: file_path_def addr_path_def)

lemma keyMap_paths [simp]:
  "node_path (s\<lparr>keyMap := m\<rparr>) nid = node_path s nid"
  "addr_path (s\<lparr>keyMap := m\<rparr>) nid h = addr_path s nid h"
  "meta_path (s\<lparr>keyMap := m\<rparr>) = meta_path s"
  by (simp_all add: node_path_def addr_path_def meta_path_def)

lemma store_inv_keyMap [simp]: "store_inv (s\<lparr>keyMap := m\<rparr>) fs = store_inv s fs"
  by (simp add: store_inv_def)

lemma vault_keyMap [simp]: "vault (s\<lparr>keyMap := m\<rparr>) fs = vault s fs"
  by (simp add: vault_def fun_eq_iff)

lemma store_inv_D:
  assumes "store_inv s fs"
  shows "fs_wf fs" and "good_root (Root s)" and "PathTransformFunc s = CASPathTransformFunc"
    and "dir_route fs [] (path_of (Root s))" and "fs_get fs (meta_path s) \<noteq> Some Dir"
    and "valid_id nid \<Longrightarrow> fs_get fs (node_path s nid @ q) = Some i \<Longrightarrow> shape_ok q i"
  using assms by (simp_all add: store_inv_def)

lemma path_of_root: "good_root r \<Longrightarrow> path_ok (path_of r) \<and> path_of r \<noteq> [] \<and> \<not> is_root (path_of r)"
  by (auto simp: good_root_def path_of_eq mk_path_def is_root_def path_ok_def norm_comp_def split: list.splits)

lemma addr_path_inj [simp]: "addr_path s n h = addr_path s n' h' \<longleftrightarrow> n = n' \<and> h = h'"
  by (auto simp: addr_path_def node_path_def)

lemma node_below_root: "\<not> below (node_path s nid @ q) (path_of (Root s))"
  by (auto simp: node_path_def below_iff)

lemma meta_not_node [simp]:
  assumes "valid_id nid"
  shows "node_path s nid @ q \<noteq> meta_path s" and "meta_path s \<noteq> node_path s nid @ q"
proof -
  have "CHR ''.'' \<in> set ''metadata.json''"
    by simp
  then have "nid \<noteq> ''metadata.json''"
    using valid_id_chars [OF assms] by blast
  then show "node_path s nid @ q \<noteq> meta_path s" and "meta_path s \<noteq> node_path s nid @ q"
    by (auto simp: node_path_def meta_path_def)
qed


section \<open>Effects on the tree\<close>

lemma os_MkdirAll_ok:
  assumes "fs_wf fs" and "p \<noteq> []" and "path_ok (path_of p)" and "dir_route fs [] (path_of p)"
  obtains fs' where "os_MkdirAll fs p = Inr fs'" and "fs_wf fs'"
    and "\<And>q. fs_get fs' q = (if below q (path_of p) then Some Dir else fs_get fs q)"
proof -
  have "on_route [] (path_of p) q = below q (path_of p)" for q
    by (simp add: on_route_def below_def)
  with mkdir_at_ok [of fs "[]" "path_of p"] assms that show ?thesis
    by (auto simp: os_MkdirAll_def os_err_def)
qed

lemma os_Create_ok:
  assumes "fs_wf fs" and "p \<noteq> []" and "path_of p = q @ [c]" and "norm_comp c"
    and "fs_get fs q = Some Dir" and "fs_get fs (q @ [c]) \<noteq> Some Dir"
  shows "os_Create fs p = Inr (fs_set fs (q @ [c]) (File []))"
    and "fs_wf (fs_set fs (q @ [c]) (File b))"
  using assms fs_create_ok [of fs "q @ [c]"] norm_not_root [of c q]
  by (auto simp: os_Create_def os_err_def intro!: fs_wf_set)

text \<open>The result of putting a file: its directories exist, the file has the content.\<close>

definition put_file :: "fs \<Rightarrow> path \<Rightarrow> string \<Rightarrow> bytes \<Rightarrow> fs \<Rightarrow> bool" where
  "put_file fs d c b fs' \<longleftrightarrow> fs_wf fs' \<and>
     (\<forall>q. fs_get fs' q =
        (if q = d @ [c] then Some (File b) else if below q d then Some Dir else fs_get fs q))"

lemma put_file_intro:
  assumes "fs_wf fs1" and "norm_comp c" and "fs_get fs (d @ [c]) \<noteq> Some Dir"
    and "\<And>q. fs_get fs1 q = (if below q d then Some Dir else fs_get fs q)"
  shows "put_file fs d c b (fs_set fs1 (d @ [c]) (File b))"
proof -
  have "\<not> below (d @ [c]) d"
    by (auto simp: below_iff)
  with assms norm_not_root [OF assms(2), of d] show ?thesis
    by (auto simp: put_file_def fs_get_set intro!: fs_wf_set)
qed

lemma saveKeyMap_put:
  assumes "store_inv s fs"
  obtains fs' where "saveKeyMap J s fs = (fs', None)"
    and "put_file fs (path_of (Root s)) ''metadata.json'' (MarshalIndent J (keyMap s)) fs'"
proof -
  note inv = store_inv_D [OF assms]
  let ?r = "path_of (Root s)" and ?m = "''metadata.json''"
  have norm: "norm_comp ?m"
    by code_simp
  have r: "Root s \<noteq> []" "path_ok ?r"
    using inv(2) path_of_root by (auto simp: good_root_def)
  obtain fs1 where fs1: "os_MkdirAll fs (Root s) = Inr fs1" "fs_wf fs1"
    and get: "\<And>q. fs_get fs1 q = (if below q ?r then Some Dir else fs_get fs q)"
    using os_MkdirAll_ok [OF inv(1) r inv(4)] by blast
  have meta: "metadataPath s \<noteq> []" "path_of (metadataPath s) = ?r @ [?m]"
    using r(1) path_of_Join2 [OF r(1) norm] by (simp_all add: metadataPath_def Join_not_Nil)
  have dir: "fs_get fs1 ?r = Some Dir" and free: "fs_get fs1 (?r @ [?m]) \<noteq> Some Dir"
    using inv(5) by (auto simp: get below_iff meta_path_def)
  show ?thesis
  proof (rule that)
    show "saveKeyMap J s fs = (fs_set fs1 (?r @ [?m]) (File (MarshalIndent J (keyMap s))), None)"
      using fs1(1) os_Create_ok(1) [OF fs1(2) meta norm dir free] meta(2)
      by (simp add: saveKeyMap_def os_WriteFile_def file_write_def)
    show "put_file fs ?r ?m (MarshalIndent J (keyMap s))
       (fs_set fs1 (?r @ [?m]) (File (MarshalIndent J (keyMap s))))"
      using inv(5) by (intro put_file_intro [OF fs1(2) norm _ get]) (simp add: meta_path_def)
  qed
qed

lemma dir_route_blocks:
  assumes "store_inv s fs" and "valid_id nid"
  shows "dir_route fs [] (node_path s nid @ hash_blocks h)"
  unfolding dir_route_def
proof (intro allI impI)
  fix n
  assume "n \<le> length (node_path s nid @ hash_blocks h)"
  let ?r = "path_of (Root s)"
  show "no_file fs ([] @ take n (node_path s nid @ hash_blocks h))"
  proof (cases "n \<le> length ?r")
    case True
    with store_inv_D(4) [OF assms(1)] show ?thesis
      by (simp add: dir_route_def node_path_def)
  next
    case False
    then have n: "take n (node_path s nid @ hash_blocks h) =
        node_path s nid @ take (n - Suc (length ?r)) (hash_blocks h)"
      by (simp add: node_path_def take_Cons')
    have "i = Dir" if "fs_get fs (node_path s nid @ take k (hash_blocks h)) = Some i" for i k
      using store_inv_D(6) [OF assms that]
      by (cases i) (auto simp: shape_ok_def dest!: arg_cong [of _ _ length])
    then show ?thesis
      unfolding n by (cases "fs_get fs (node_path s nid @ take (n - Suc (length ?r)) (hash_blocks h))")
        (auto simp: no_file_def)
  qed
qed

lemma openFile_put:
  assumes "store_inv s fs" and "valid_id nid"
  obtains fs' f where "openFileForWriting s fs nid key = (fs', Inr f)"
    and "\<And>b. put_file fs (node_path s nid @ cas_blocks key) (HashKey key) b (file_write fs' f b)"
proof -
  note inv = store_inv_D [OF assms(1)]
  let ?d = "node_path s nid @ cas_blocks key" and ?c = "HashKey key"
  obtain p where p: "resolvePath s nid (PathName (CASPathTransformFunc key)) = Inr p" "p \<noteq> []"
    "path_of p = ?d"
    using resolve_dir [OF inv(2) assms(2)] .
  obtain f where f: "resolvePath s nid (FullPath (CASPathTransformFunc key)) = Inr f" "f \<noteq> []"
    "path_of f = ?d @ [?c]"
    using resolve_full [OF inv(2) assms(2)] by (metis append.assoc file_path_def)
  have "path_ok ?d"
    using path_of_root [OF inv(2)] valid_id_norm [OF assms(2)]
    by (simp add: node_path_def path_ok_append)
  then obtain fs1 where fs1: "os_MkdirAll fs p = Inr fs1" "fs_wf fs1"
    and get: "\<And>q. fs_get fs1 q = (if below q ?d then Some Dir else fs_get fs q)"
    using os_MkdirAll_ok [OF inv(1) p(2)] dir_route_blocks [OF assms] p(3) by metis
  have norm: "norm_comp ?c"
    by (simp add: hex_name_norm)
  have free: "fs_get fs (?d @ [?c]) \<noteq> Some Dir"
    using inv(6) [OF assms(2), of "cas_blocks key @ [?c]" Dir] by (auto simp: shape_ok_def)
  have dir: "fs_get fs1 ?d = Some Dir" and free1: "fs_get fs1 (?d @ [?c]) \<noteq> Some Dir"
    using free by (auto simp: get below_iff)
  have create: "os_Create fs1 f = Inr (fs_set fs1 (?d @ [?c]) (File []))"
    by (rule os_Create_ok(1) [OF fs1(2) f(2,3) norm dir free1])
  have put: "put_file fs ?d ?c b (file_write (fs_set fs1 (?d @ [?c]) (File [])) f b)" for b
    using put_file_intro [OF fs1(2) norm free get] f(3) by (simp add: file_write_def)
  show ?thesis
    using put by (rule that [rotated])
      (simp add: openFileForWriting_def inv(3) p(1) f(1) fs1(1) create)
qed


section \<open>Effects on the map\<close>

lemma put_file_get:
  "put_file fs d c b fs' \<Longrightarrow> fs_get fs' q =
     (if q = d @ [c] then Some (File b) else if below q d then Some Dir else fs_get fs q)"
  by (simp add: put_file_def)

lemma addr_not_below: "\<not> below (addr_path s n h) (node_path s nid @ hash_blocks h')"
  by (auto simp: below_iff addr_path_def node_path_def dest!: arg_cong [of _ _ length])

lemma meta_not_below: "\<not> below (meta_path s) (path_of (Root s))"
  by (auto simp: meta_path_def below_iff)

lemma vault_put:
  assumes "put_file fs (node_path s nid @ hash_blocks h) h b fs'" and "valid_id nid"
  shows "vault s fs' = (vault s fs)((nid, h) \<mapsto> b)"
proof
  fix a
  have "addr_path s (fst a) (snd a) = (node_path s nid @ hash_blocks h) @ [h] \<longleftrightarrow> a = (nid, h)"
    using addr_path_inj [of s "fst a" "snd a" nid h] by (cases a) (simp add: addr_path_def [of s nid])
  with assms(2) show "vault s fs' a = ((vault s fs)((nid, h) \<mapsto> b)) a"
    by (auto simp: vault_def put_file_get [OF assms(1)] addr_not_below)
qed

lemma vault_meta:
  assumes "put_file fs (path_of (Root s)) ''metadata.json'' b fs'"
  shows "vault s fs' = vault s fs"
proof
  fix a
  show "vault s fs' a = vault s fs a"
  proof (cases "valid_id (fst a)")
    case True
    then have "addr_path s (fst a) (snd a) \<noteq> path_of (Root s) @ [''metadata.json'']"
      unfolding addr_path_def meta_path_def [symmetric] by simp
    moreover have "\<not> below (addr_path s (fst a) (snd a)) (path_of (Root s))"
      unfolding addr_path_def by (rule node_below_root)
    ultimately show ?thesis
      by (simp add: vault_def put_file_get [OF assms])
  qed (simp add: vault_def)
qed

lemma store_inv_meta:
  assumes "store_inv s fs" and "put_file fs (path_of (Root s)) ''metadata.json'' b fs'"
  shows "store_inv s fs'"
proof -
  note inv = store_inv_D [OF assms(1)] and get = put_file_get [OF assms(2)]
  have "fs_wf fs'"
    using assms(2) by (simp add: put_file_def)
  moreover have "dir_route fs' [] (path_of (Root s))"
    unfolding dir_route_below no_file_def get by (auto simp: below_iff)
  moreover have "fs_get fs' (meta_path s) \<noteq> Some Dir"
    by (simp add: get meta_path_def)
  moreover have "fs_get fs' (node_path s nid @ q) = fs_get fs (node_path s nid @ q)" if "valid_id nid" for nid q
    using meta_not_node(1) [OF that, of s q] by (simp add: get node_below_root meta_path_def)
  ultimately show ?thesis
    using inv by (simp add: store_inv_def)
qed

lemma store_inv_put:
  assumes "store_inv s fs" and "valid_id nid" and "length h = 64"
    and "put_file fs (node_path s nid @ hash_blocks h) h b fs'"
  shows "store_inv s fs'"
proof -
  note inv = store_inv_D [OF assms(1)] and get = put_file_get [OF assms(4)]
  let ?d = "node_path s nid @ hash_blocks h"
  have root: "below (path_of (Root s)) ?d"
    by (simp add: node_path_def)
  have "fs_wf fs'"
    using assms(4) by (simp add: put_file_def)
  moreover have "dir_route fs' [] (path_of (Root s))"
    unfolding dir_route_below no_file_def get
    using below_trans [OF _ root] by (auto simp: below_iff node_path_def)
  moreover have "fs_get fs' (meta_path s) \<noteq> Some Dir"
  proof -
    have "length (meta_path s) = length (node_path s nid)"
      by (simp add: meta_path_def node_path_def)
    then have "\<not> below (meta_path s) ?d"
      using meta_not_node [OF assms(2), of s "[]"] by (simp add: below_def)
    then show ?thesis
      using inv(5) by (simp add: get)
  qed
  moreover have "shape_ok q i" if id: "valid_id n" and q: "fs_get fs' (node_path s n @ q) = Some i" for n q i
  proof -
    consider "node_path s n @ q = ?d @ [h]" "i = File b" | "below (node_path s n @ q) ?d" "i = Dir"
      | "fs_get fs (node_path s n @ q) = Some i"
      using q unfolding get by (metis option.inject)
    then show ?thesis
    proof cases
      case 1
      then have "q = hash_blocks h @ [h]"
        by (simp add: node_path_def)
      with 1 assms(3) show ?thesis by (simp add: shape_ok_def)
    next
      case 2
      then show ?thesis
        by (auto simp: shape_ok_def below_iff node_path_def dest!: arg_cong [of _ _ length])
    next
      case 3
      then show ?thesis using inv(6) [OF id] by blast
    qed
  qed
  ultimately show ?thesis
    using inv by (simp add: store_inv_def)
qed


section \<open>The operations\<close>

definition learn :: "store \<Rightarrow> string \<Rightarrow> store" where
  "learn s key = s\<lparr>keyMap := AList.update (HashKey key) key (keyMap s)\<rparr>"

lemma learn_simps [simp]:
  "store_inv (learn s key) fs = store_inv s fs"
  "vault (learn s key) fs = vault s fs"
  "node_path (learn s key) nid = node_path s nid"
  "Root (learn s key) = Root s"
  "map_of (keyMap (learn s key)) = (map_of (keyMap s))(HashKey key \<mapsto> key)"
  by (simp_all add: learn_def update_conv')

lemma rememberKey_put:
  assumes "store_inv s fs"
  obtains fs' where "rememberKey J s fs key = (learn s key, fs')" and "store_inv s fs'"
    and "vault s fs' = vault s fs"
    and "fs_get fs' (meta_path s) = Some (File (MarshalIndent J (keyMap (learn s key))))"
proof -
  have "store_inv (learn s key) fs"
    using assms by simp
  then obtain fs' where fs': "saveKeyMap J (learn s key) fs = (fs', None)"
    "put_file fs (path_of (Root s)) ''metadata.json'' (MarshalIndent J (keyMap (learn s key))) fs'"
    using saveKeyMap_put by (metis learn_simps(4))
  have "rememberKey J s fs key = (learn s key, fs')"
    using fs'(1) store_inv_D(3) [OF assms]
    by (simp add: rememberKey_def CAS_eq learn_def Let_def)
  moreover have "fs_get fs' (meta_path s) = Some (File (MarshalIndent J (keyMap (learn s key))))"
    by (simp add: put_file_get [OF fs'(2)] meta_path_def)
  ultimately show ?thesis
    using that store_inv_meta [OF assms fs'(2)] vault_meta [OF fs'(2)] by blast
qed

text \<open>Opening a slot and filling it, seen on the map.\<close>

lemma openFile_vault:
  assumes "store_inv s fs" and "valid_id nid"
  obtains fs' f where "openFileForWriting s fs nid key = (fs', Inr f)"
    and "\<And>b. store_inv s (file_write fs' f b)"
    and "\<And>b. vault s (file_write fs' f b) = (vault s fs)((nid, HashKey key) \<mapsto> b)"
    and "\<And>b. fs_get (file_write fs' f b) (meta_path s) = fs_get fs (meta_path s)"
proof -
  obtain fs' f where open_f: "openFileForWriting s fs nid key = (fs', Inr f)"
    and put: "\<And>b. put_file fs (node_path s nid @ cas_blocks key) (HashKey key) b (file_write fs' f b)"
    using openFile_put [OF assms] by blast
  have "length (meta_path s) = length (node_path s nid)"
    by (simp add: meta_path_def node_path_def)
  then have "\<not> below (meta_path s) (node_path s nid @ cas_blocks key)"
    using meta_not_node [OF assms(2), of s "[]"] by (simp add: below_def)
  moreover have "meta_path s \<noteq> (node_path s nid @ cas_blocks key) @ [HashKey key]"
    using meta_not_node(2) [OF assms(2)] by simp
  ultimately have "fs_get (file_write fs' f b) (meta_path s) = fs_get fs (meta_path s)" for b
    unfolding put_file_get [OF put] by simp
  then show ?thesis
    using that [OF open_f] store_inv_put [OF assms length_HashKey put] vault_put [OF put assms(2)]
    by blast
qed

text \<open>The invalid identifiers are refused before the disk is touched, except for the key map.\<close>

lemma resolvePath_invalid: "ValidateNodeID nid = Inl e \<Longrightarrow> resolvePath s nid p = Inl e"
  by (simp add: resolvePath_def)

lemma openFile_invalid:
  "ValidateNodeID nid = Inl e \<Longrightarrow> openFileForWriting s fs nid key = (fs, Inl e)"
  by (simp add: openFileForWriting_def resolvePath_invalid Let_def)

lemma Write_vault:
  assumes "store_inv s fs" and "valid_id nid"
  obtains fs' where "store_Write J s fs nid key r =
      (learn s key, fs', case drain r of (d, None) \<Rightarrow> Inr (length d) | (d, Some e) \<Rightarrow> Inl e)"
    and "store_inv s fs'"
    and "vault s fs' = (vault s fs)((nid, HashKey key) \<mapsto> fst (drain r))"
    and "fs_get fs' (meta_path s) = Some (File (MarshalIndent J (keyMap (learn s key))))"
proof -
  obtain fs1 where fs1: "rememberKey J s fs key = (learn s key, fs1)" "store_inv s fs1"
    "vault s fs1 = vault s fs"
    "fs_get fs1 (meta_path s) = Some (File (MarshalIndent J (keyMap (learn s key))))"
    using rememberKey_put [OF assms(1)] by blast
  then have "store_inv (learn s key) fs1" by simp
  then obtain fs2 f where f: "openFileForWriting (learn s key) fs1 nid key = (fs2, Inr f)"
    and eff: "\<And>b. store_inv (learn s key) (file_write fs2 f b)"
      "\<And>b. vault (learn s key) (file_write fs2 f b) = (vault (learn s key) fs1)((nid, HashKey key) \<mapsto> b)"
      "\<And>b. fs_get (file_write fs2 f b) (meta_path (learn s key)) = fs_get fs1 (meta_path (learn s key))"
    using openFile_vault [OF _ assms(2)] by blast
  have "meta_path (learn s key) = meta_path s"
    by (simp add: meta_path_def)
  then show ?thesis
    using that [of "file_write fs2 f (fst (drain r))"] eff fs1 f
    by (cases "drain r") (auto simp: store_Write_def writeStream_def split: option.split)
qed

lemma WriteEncrypt_vault:
  assumes "store_inv s fs" and "valid_id nid"
  obtains fs' where "store_WriteEncrypt J s fs rnd encKey nid key r =
      (learn s key, fs', snd (CopyEncrypt encKey rnd r new_buffer))"
    and "store_inv s fs'"
    and "vault s fs' = (vault s fs)((nid, HashKey key) \<mapsto> w_buf (fst (CopyEncrypt encKey rnd r new_buffer)))"
proof -
  obtain fs1 where fs1: "rememberKey J s fs key = (learn s key, fs1)" "store_inv s fs1"
    "vault s fs1 = vault s fs"
    using rememberKey_put [OF assms(1)] by blast
  then have "store_inv (learn s key) fs1" by simp
  then obtain fs2 f where f: "openFileForWriting (learn s key) fs1 nid key = (fs2, Inr f)"
    and eff: "\<And>b. store_inv (learn s key) (file_write fs2 f b)"
      "\<And>b. vault (learn s key) (file_write fs2 f b) = (vault (learn s key) fs1)((nid, HashKey key) \<mapsto> b)"
      "\<And>b. fs_get (file_write fs2 f b) (meta_path (learn s key)) = fs_get fs1 (meta_path (learn s key))"
    using openFile_vault [OF _ assms(2)] by blast
  obtain w res where c: "CopyEncrypt encKey rnd r new_buffer = (w, res)"
    by (rule prod.exhaust)
  show ?thesis
  proof (rule that)
    show "store_WriteEncrypt J s fs rnd encKey nid key r =
        (learn s key, file_write fs2 f (w_buf w), snd (CopyEncrypt encKey rnd r new_buffer))"
      by (simp add: store_WriteEncrypt_def fs1(1) f c)
  qed (use eff [of "w_buf w"] fs1(3) in \<open>simp_all add: c\<close>)
qed

lemma WriteDecrypt_vault:
  assumes "store_inv s fs" and "valid_id nid"
  obtains fs' where "store_WriteDecrypt s fs encKey nid key r = (fs', snd (CopyDecrypt encKey r new_buffer))"
    and "store_inv s fs'"
    and "vault s fs' = (vault s fs)((nid, HashKey key) \<mapsto> w_buf (fst (CopyDecrypt encKey r new_buffer)))"
proof -
  obtain fs2 f where f: "openFileForWriting s fs nid key = (fs2, Inr f)"
    and eff: "\<And>b. store_inv s (file_write fs2 f b)"
      "\<And>b. vault s (file_write fs2 f b) = (vault s fs)((nid, HashKey key) \<mapsto> b)"
      "\<And>b. fs_get (file_write fs2 f b) (meta_path s) = fs_get fs (meta_path s)"
    using openFile_vault [OF assms] by blast
  obtain w res where c: "CopyDecrypt encKey r new_buffer = (w, res)"
    by (rule prod.exhaust)
  show ?thesis
  proof (rule that)
    show "store_WriteDecrypt s fs encKey nid key r =
        (file_write fs2 f (w_buf w), snd (CopyDecrypt encKey r new_buffer))"
      by (simp add: store_WriteDecrypt_def f c)
  qed (use eff [of "w_buf w"] in \<open>simp_all add: c\<close>)
qed


text \<open>A missing address is \<open>ErrNotExist\<close>: no regular file can stand in the way.\<close>

lemma os_Stat_addr:
  assumes "store_inv s fs" and "valid_id nid" and "p \<noteq> []" and "path_of p = addr_path s nid h"
  shows "os_Stat fs p =
    (case vault s fs (nid, h) of None \<Rightarrow> Inl (PathError ENOENT p) | Some b \<Rightarrow> Inr (File b))"
proof (cases "fs_get fs (addr_path s nid h)")
  case None
  have "stat_at fs [] ((node_path s nid @ hash_blocks h) @ [h]) = Inl ENOENT"
    using None by (intro stat_at_missing dir_route_blocks assms) (simp add: addr_path_def)
  with None assms(2-4) show ?thesis
    by (simp add: vault_def os_Stat_def os_err_def fs_stat_def addr_path_def)
next
  case (Some i)
  with store_inv_D(6) [OF assms(1,2), of "hash_blocks h @ [h]" i] have "i \<noteq> Dir"
    by (auto simp: shape_ok_def addr_path_def)
  moreover have "os_Stat fs p = Inr i"
    using os_Stat_get [OF store_inv_D(1) [OF assms(1)] assms(3)] assms(4) Some by simp
  ultimately show ?thesis
    using Some assms(2) by (cases i) (simp_all add: vault_def)
qed

lemma Read_vault:
  assumes "store_inv s fs" and "valid_id nid"
  shows "\<exists>p. path_of p = file_path s nid key \<and> store_Read s fs nid key =
    (case vault s fs (nid, HashKey key) of
       None \<Rightarrow> Inl (PathError ENOENT p) | Some b \<Rightarrow> Inr (length b, bytes_reader b))"
proof -
  obtain p where p: "resolvePath s nid (FullPath (CASPathTransformFunc key)) = Inr p" "p \<noteq> []"
    "path_of p = file_path s nid key"
    using resolve_full [OF store_inv_D(2) [OF assms(1)] assms(2)] .
  then show ?thesis
    using os_Stat_addr [OF assms p(2), of "HashKey key"]
    by (auto simp: store_Read_def store_inv_D(3) [OF assms(1)] file_path_addr split: option.split)
qed

lemma Has_vault:
  assumes "store_inv s fs"
  shows "store_Has s fs nid key \<longleftrightarrow> vault s fs (nid, HashKey key) \<noteq> None"
proof (cases "ValidateNodeID nid")
  case (Inl e)
  then show ?thesis by (simp add: store_Has_def vault_def resolvePath_invalid)
next
  case (Inr u)
  then have id: "valid_id nid" by simp
  obtain p where p: "resolvePath s nid (FullPath (CASPathTransformFunc key)) = Inr p" "p \<noteq> []"
    "path_of p = file_path s nid key"
    using resolve_full [OF store_inv_D(2) [OF assms] id] .
  then show ?thesis
    using os_Stat_addr [OF assms id p(2), of "HashKey key"]
    by (auto simp: store_Has_def store_inv_D(3) [OF assms] file_path_addr split: option.split)
qed

section \<open>Removal\<close>

lemma store_inv_remove:
  assumes "store_inv s fs"
  shows "store_inv s (fs_remove fs p)"
proof -
  note inv = store_inv_D [OF assms]
  have get: "fs_get (fs_remove fs p) q = Some i \<Longrightarrow> fs_get fs q = Some i" for q i
    by (auto simp: fs_get_remove split: if_splits)
  have "dir_route (fs_remove fs p) [] (path_of (Root s))"
    using inv(4) by (auto simp: dir_route_below no_file_def fs_get_remove)
  then show ?thesis
    using inv get unfolding store_inv_def by (meson fs_wf_remove)
qed

lemma Delete_vault:
  assumes "store_inv s fs" and "valid_id nid"
  obtains fs' where "store_Delete s fs nid key = (fs', None)" and "store_inv s fs'"
    and "vault s fs' =
      (\<lambda>(n, h). if n = nid \<and> take 5 h = take 5 (HashKey key) then None else vault s fs (n, h))"
proof -
  note inv = store_inv_D [OF assms(1)]
  let ?c = "take 5 (HashKey key)"
  obtain p where p: "resolvePath s nid (FirstPathName (CASPathTransformFunc key)) = Inr p" "p \<noteq> []"
    "path_of p = node_path s nid @ [?c]" "\<not> ends_with_dot p"
    using resolve_first [OF inv(2) assms(2)] .
  have "dir_route fs [] (node_path s nid)"
    using dir_route_blocks [OF assms] by (auto simp: dir_route_below below_iff)
  moreover have "\<not> is_root (node_path s nid @ [?c])"
    using path_of_root [OF inv(2)] by (auto simp: node_path_def is_root_def)
  ultimately obtain fs' where fs': "os_RemoveAll fs p = Inr fs'"
    "fs' = fs \<or> fs' = fs_remove fs (path_of p)"
    and get: "\<And>x. fs_get fs' x = (if below (path_of p) x then None else fs_get fs x)"
    using os_RemoveAll_get [OF inv(1) p(2,4,3)] by blast
  have below: "below (path_of p) (addr_path s n h) \<longleftrightarrow> n = nid \<and> take 5 h = ?c" for n h
    by (auto simp: p(3) addr_path_def node_path_def below_def hash_blocks_def upt_conv_Cons)
  show ?thesis
  proof (rule that)
    show "store_Delete s fs nid key = (fs', None)"
      by (simp add: store_Delete_def inv(3) p(1) fs'(1))
    show "store_inv s fs'"
      using fs'(2) assms(1) store_inv_remove by blast
    show "vault s fs' = (\<lambda>(n, h). if n = nid \<and> take 5 h = ?c then None else vault s fs (n, h))"
      by (auto simp: fun_eq_iff vault_def get below)
  qed
qed

lemma Clear_vault:
  assumes "store_inv s fs" and "\<not> ends_with_dot (Root s)"
  obtains fs' where "store_Clear s fs = (fs', None)" and "store_inv s fs'" and "vault s fs' = Map.empty"
    and "fs_get fs' (meta_path s) = None"
proof -
  note inv = store_inv_D [OF assms(1)]
  have r: "Root s \<noteq> []" "\<not> is_root (path_of (Root s))" "path_of (Root s) \<noteq> []"
    using inv(2) path_of_root by (auto simp: good_root_def)
  then obtain q c where q: "path_of (Root s) = q @ [c]"
    by (meson rev_exhaust)
  with inv(4) have "dir_route fs [] q"
    by (auto simp: dir_route_below below_iff)
  then obtain fs' where fs': "os_RemoveAll fs (Root s) = Inr fs'"
    "fs' = fs \<or> fs' = fs_remove fs (path_of (Root s))"
    and get: "\<And>x. fs_get fs' x = (if below (path_of (Root s)) x then None else fs_get fs x)"
    using os_RemoveAll_get [OF inv(1) r(1) assms(2) q] r(2) q by metis
  show ?thesis
  proof (rule that)
    show "store_Clear s fs = (fs', None)"
      by (simp add: store_Clear_def fs'(1))
    show "store_inv s fs'"
      using fs'(2) assms(1) store_inv_remove by blast
    show "vault s fs' = Map.empty"
      by (auto simp: fun_eq_iff vault_def get addr_path_def node_path_def)
    show "fs_get fs' (meta_path s) = None"
      by (simp add: get meta_path_def)
  qed
qed


section \<open>Listing\<close>

interpretation lister: walk_reader "list_cb s nid" "list_add s nid" for s nid
  by unfold_locales (simp add: list_cb_def)

definition shown_key :: "store \<Rightarrow> string \<Rightarrow> string" where
  "shown_key s h = (case map_of (keyMap s) h of Some k \<Rightarrow> k | None \<Rightarrow> ''file_'' @ take 8 h)"

definition file_info :: "store \<Rightarrow> string \<Rightarrow> string \<Rightarrow> bytes \<Rightarrow> FileInfo" where
  "file_info s nid h b = \<lparr>fi_Key = shown_key s h, fi_Hash = h, fi_Size = length b, fi_NodeID = nid\<rparr>"

fun listed :: "store \<Rightarrow> string \<Rightarrow> (string \<times> inode) list \<Rightarrow> FileInfo list" where
  "listed s nid [] = []"
| "listed s nid ((p, Dir) # vs) = listed s nid vs"
| "listed s nid ((p, File b) # vs) = file_info s nid (base_name p) b # listed s nid vs"

lemma collect_listed:
  "(\<And>p b. (p, File b) \<in> set vs \<Longrightarrow> 8 \<le> length (base_name p)) \<Longrightarrow>
   lister.collect s nid vs (Return acc) = Return (acc @ listed s nid vs)"
proof (induction vs arbitrary: acc)
  case Nil
  show ?case by simp
next
  case (Cons v vs)
  obtain p i where v: "v = (p, i)" by force
  have IH: "lister.collect s nid vs (Return a) = Return (a @ listed s nid vs)" for a
    by (rule Cons.IH) (use Cons.prems in auto)
  have "list_add s nid p (File b) (Return acc) = Return (acc @ [file_info s nid (base_name p) b])"
    if "i = File b" for b
    using Cons.prems [of p b] that v
    by (auto simp: list_add_def file_info_def display_key_def shown_key_def split: option.split)
  moreover have "list_add s nid p Dir (Return acc) = Return acc"
    by (simp add: list_add_def)
  ultimately show ?case
    using IH v by (cases i) simp_all
qed

lemma set_listed:
  "set (listed s nid vs) = {file_info s nid (last q) b | q b. (q, File b) \<in> entry_of ` set vs}"
proof (induction vs)
  case (Cons v vs)
  obtain p i where v: "v = (p, i)" by force
  show ?case
    by (cases i) (auto simp: v Cons.IH entry_of_def base_name_def)
qed simp

lemma distinct_listed:
  "distinct (map (path_of \<circ> fst) vs) \<Longrightarrow>
   (\<And>p b p' b'. (p, File b) \<in> set vs \<Longrightarrow> (p', File b') \<in> set vs \<Longrightarrow> base_name p = base_name p' \<Longrightarrow>
      path_of p = path_of p') \<Longrightarrow>
   distinct (map fi_Hash (listed s nid vs))"
proof (induction vs)
  case (Cons v vs)
  obtain p i where v: "v = (p, i)" by force
  have IH: "distinct (map fi_Hash (listed s nid vs))"
    by (rule Cons.IH) (use Cons.prems in \<open>auto simp: v\<close>)
  have "base_name p \<notin> set (map fi_Hash (listed s nid vs))" if i: "i = File b" for b
  proof
    assume "base_name p \<in> set (map fi_Hash (listed s nid vs))"
    then obtain p' b' where "(p', File b') \<in> set vs" "base_name p = base_name p'"
      by (auto simp: set_listed entry_of_def file_info_def base_name_def)
    with Cons.prems(2) [of p b p' b'] i v have "(p', File b') \<in> set vs" "path_of p = path_of p'"
      by auto
    with Cons.prems(1) v show False by force
  qed
  with IH show ?case
    by (cases i) (simp_all add: v file_info_def)
qed simp

lemma file_below_node:
  assumes "store_inv s fs" and "valid_id nid" and "below (node_path s nid) q" and "fs_get fs q = Some (File b)"
  shows "q = addr_path s nid (last q) \<and> length (last q) = 64 \<and> vault s fs (nid, last q) = Some b"
proof -
  note inv = store_inv_D [OF assms(1)]
  obtain r where r: "q = node_path s nid @ r"
    using assms(3) by (auto simp: below_iff)
  with inv(6) [OF assms(2), of r "File b"] assms(4) have "shape_ok r (File b)"
    by simp
  then have *: "r = hash_blocks (last r) @ [last r]" "length (last r) = 64" "r \<noteq> []"
    by (simp_all add: shape_ok_def)
  with r have q: "addr_path s nid (last q) = q" "last q = last r"
    by (simp_all add: addr_path_def)
  with assms(2,4) have "vault s fs (nid, last q) = Some b"
    by (simp add: vault_def)
  with q *(2) show ?thesis by simp
qed

lemma List_no_node:
  assumes "store_inv s fs" and "valid_id nid" and "fs_get fs (node_path s nid) = None"
  shows "store_List s fs nid = Some (Return [], None)" and "vault s fs (nid, h) = None"
proof -
  note inv = store_inv_D [OF assms(1)]
  obtain d where d: "resolvePath s nid [] = Inr d" "d \<noteq> []" "path_of d = node_path s nid"
    using resolve_node [OF inv(2) assms(2)] .
  have "fs_stat fs (path_of d) = Inl ENOENT"
    using assms(3) stat_at_missing [of fs "[]" "path_of (Root s)" nid] inv(4)
    by (simp add: d(3) node_path_def fs_stat_def)
  then show "store_List s fs nid = Some (Return [], None)"
    by (simp add: store_List_def d os_Stat_def os_err_def)
  show "vault s fs (nid, h) = None"
    using assms(3) fs_wf_prefix [OF inv(1), of "node_path s nid"]
    by (auto simp: vault_def addr_path_def split: option.split inode.split)
qed

lemma List_vault:
  assumes "store_inv s fs" and "valid_id nid"
  obtains files where "store_List s fs nid = Some (Return files, None)"
    and "set files = {file_info s nid h b | h b. vault s fs (nid, h) = Some b}"
    and "distinct (map fi_Hash files)"
proof (cases "fs_get fs (node_path s nid)")
  case None
  then show ?thesis
    using that [of "[]"] List_no_node [OF assms] by simp
next
  case (Some i)
  note inv = store_inv_D [OF assms(1)]
  obtain d where d: "resolvePath s nid [] = Inr d" "d \<noteq> []" "path_of d = node_path s nid"
    using resolve_node [OF inv(2) assms(2)] .
  have nr: "\<not> is_root (path_of d)"
    using path_of_root [OF inv(2)] by (auto simp: d(3) node_path_def is_root_def)
  let ?vs = "visits (walk_fuel fs) fs d i"
  have get: "fs_get fs (path_of d) = Some i"
    using Some d(3) by simp
  have ents: "entry_of ` set ?vs = {(q, j). below (node_path s nid) q \<and> fs_get fs q = Some j}"
    using visits_set [OF inv(1) d(2) nr get fs_depth_fuel, of "walk_fuel fs"] d(3) by (simp add: walk_fuel_def)
  have files: "q = addr_path s nid (last q) \<and> length (last q) = 64 \<and> vault s fs (nid, last q) = Some b"
    if "(q, File b) \<in> entry_of ` set ?vs" for q b
    using file_below_node [OF assms] that unfolding ents by blast
  have ent: "(path_of p, File b) \<in> entry_of ` set ?vs" if "(p, File b) \<in> set ?vs" for p b
    using that by (force simp: entry_of_def)
  show ?thesis
  proof (rule that)
    show "store_List s fs nid = Some (Return (listed s nid ?vs), None)"
      using collect_listed [of ?vs s nid "[]"] files ent os_Stat_get [OF inv(1) d(2)] get
      by (fastforce simp: store_List_def d(1) lister.Walk_reads [OF inv(1) d(2) nr get] base_name_def)
    have "(addr_path s nid h, File b) \<in> entry_of ` set ?vs" if "vault s fs (nid, h) = Some b" for h b
      using that by (auto simp: ents vault_def addr_path_def split: if_splits option.splits inode.splits)
    moreover have "last (addr_path s nid h) = h" for h
      by (simp add: addr_path_def)
    ultimately show "set (listed s nid ?vs) = {file_info s nid h b | h b. vault s fs (nid, h) = Some b}"
      unfolding set_listed using files by (smt (verit) Collect_cong)
    show "distinct (map fi_Hash (listed s nid ?vs))"
      using visits_distinct [OF inv(1) d(2)] files ent
      by (intro distinct_listed) (auto simp: base_name_def, metis)
  qed
qed

section \<open>Containment\<close>

lemma split_comps_str:
  assumes "cleaned r cs" and "cs \<noteq> []"
  shows "split sep (comps_str r cs) = (if r then [] # cs else cs)"
proof -
  have "\<forall>c \<in> set cs. sep \<notin> set c"
    using cleaned_no_sep [OF assms(1)] by blast
  then show ?thesis
    using assms(2) split_str_join [of cs sep] by (simp add: comps_str_def)
qed

lemma cleaned_below_norm:
  assumes "cleaned r (cs @ ds)" and "list_all norm_comp cs" and "cs \<noteq> []"
  shows "list_all norm_comp ds"
proof -
  obtain n ns where *: "cs @ ds = dotdots n @ ns" "list_all norm_comp ns"
    using assms(1) by (auto simp: cleaned_def)
  obtain c cs' where c: "cs = c # cs'" "c \<noteq> ''..''"
    using assms(2,3) by (cases cs) (auto simp: norm_comp_def)
  then have "n = 0"
    using *(1) by (cases n) (auto simp: dotdots_Suc)
  then have "ns = cs @ ds"
    using *(1) by simp
  with *(2) show ?thesis
    by simp
qed

lemma prefix_comps:
  assumes "cleaned r cs" and "cleaned r rc" and "rc \<noteq> []"
    and "comps_str r cs = comps_str r rc @ sep # t"
  shows "cs = rc @ split sep t"
proof (cases "cs = []")
  case True
  have "str_join [sep] rc \<noteq> []"
    using cleaned_no_sep [OF assms(2), of "hd rc"] assms(3) by (cases rc; cases "tl rc") auto
  with True assms(3,4) show ?thesis
    by (cases r) (auto simp: comps_str_def Cons_eq_append_conv sep_def)
next
  case False
  have "split sep (comps_str r cs) = split sep (comps_str r rc) @ split sep t"
    unfolding assms(4) by (rule split_append_sep)
  with False show ?thesis
    using split_comps_str [OF assms(1)] split_comps_str [OF assms(2,3)] by (simp split: if_splits)
qed

lemma resolvePath_below:
  assumes "good_root (Root s)" and "resolvePath s nid sub = Inr p"
  shows "\<exists>ds. path_of p = path_of (Root s) @ ds \<and> list_all norm_comp ds"
proof -
  let ?r = "is_rooted (Root s)" and ?rc = "comps_of (Root s)"
  let ?cs = "clean_comps ?r (rev ?rc) (concat (map (split sep) [nid, sub]))"
  have rc: "?rc \<noteq> []" "list_all norm_comp ?rc"
    using assms(1) by (simp_all add: good_root_def)
  have p: "p = comps_str ?r ?cs" "HasPrefix p (Clean (Root s) @ [sep]) \<or> p = Clean (Root s)"
    using assms(2) Join_Clean [of "Root s" "[nid, sub]"]
    by (auto simp: resolvePath_def Let_def split: sum.splits if_splits)
  have cl: "cleaned ?r ?cs"
    by (rule clean_comps_cleaned) (auto dest: split_parts_no_sep)
  then have path: "path_of p = mk_path ?r ?cs"
    using p(1) by simp
  from p(2) show ?thesis
  proof
    assume "p = Clean (Root s)"
    then show ?thesis by (intro exI [of _ "[]"]) simp
  next
    assume "HasPrefix p (Clean (Root s) @ [sep])"
    then obtain t where "comps_str ?r ?cs = comps_str ?r ?rc @ sep # t"
      using p(1) by (auto simp: HasPrefix_iff Clean_eq)
    then have cs: "?cs = ?rc @ split sep t"
      using prefix_comps [OF cl cleaned_comps_of rc(1)] by blast
    with cl rc have "list_all norm_comp (split sep t)"
      using cleaned_below_norm by metis
    then show ?thesis
      using path cs by (intro exI [of _ "split sep t"]) (simp add: path_of_eq [of "Root s"] mk_path_append)
  qed
qed

section \<open>The key map\<close>

text \<open>Every name the map knows is the hash of the key it shows.\<close>

definition keys_coherent :: "store \<Rightarrow> bool" where
  "keys_coherent s \<longleftrightarrow> list_all (\<lambda>(h, k). h = HashKey k) (keyMap s)"

lemma keys_coherent_get: "keys_coherent s \<Longrightarrow> map_of (keyMap s) h = Some k \<Longrightarrow> h = HashKey k"
  by (auto simp: keys_coherent_def list_all_iff dest!: map_of_SomeD)

lemma keys_coherent_learn: "keys_coherent s \<Longrightarrow> keys_coherent (learn s key)"
proof -
  have "list_all (\<lambda>(h, k). h = HashKey k) (AList.update (HashKey key) key al)"
    if "list_all (\<lambda>(h, k). h = HashKey k) al" for al
    using that by (induction al) auto
  then show "keys_coherent s \<Longrightarrow> keys_coherent (learn s key)"
    by (simp add: keys_coherent_def learn_def)
qed

text \<open>A store opened on a disk whose key map file holds a document.\<close>

lemma NewStore_loads:
  assumes "store_inv s fs" and "fs_get fs (meta_path s) = Some (File doc)"
  shows "NewStore J \<lparr>opt_Root = Root s, opt_PathTransformFunc = Some CASPathTransformFunc\<rparr> fs =
    s\<lparr>keyMap := fst (Unmarshal J doc [])\<rparr>"
proof -
  note inv = store_inv_D [OF assms(1)]
  have norm: "norm_comp ''metadata.json''"
    by code_simp
  have r: "Root s \<noteq> []"
    using inv(2) by (simp add: good_root_def)
  let ?s = "\<lparr>Root = Root s, PathTransformFunc = CASPathTransformFunc, keyMap = []\<rparr>"
  have "os_Stat fs (metadataPath ?s) = Inr (File doc)"
    using os_Stat_get [OF inv(1) Join_not_Nil [OF r], of "[''metadata.json'']" "File doc"]
      path_of_Join2 [OF r norm] assms(2) by (simp add: metadataPath_def meta_path_def)
  then have "loadKeyMap J ?s fs =
      (?s\<lparr>keyMap := fst (Unmarshal J doc [])\<rparr>, snd (Unmarshal J doc []))"
    by (simp add: loadKeyMap_def os_ReadFile_def split: prod.split)
  with r inv(3) show ?thesis
    by (simp add: NewStore_def Let_def)
qed


section \<open>The store as seen by its clients\<close>

text \<open>
  The contract: slots addressed by an owner and a key.  Keys may share a slot (\<open>same\<close>), and deleting
  a key may take further keys with it (\<open>near\<close>).
\<close>

datatype ('i, 'k) blob_op = Put 'i 'k bytes | Del 'i 'k

fun op_owner :: "('i, 'k) blob_op \<Rightarrow> 'i" where
  "op_owner (Put i k b) = i"
| "op_owner (Del i k) = i"

text \<open>What a slot holds after a history: the last write that no later deletion undid.\<close>

fun replay ::
    "('k \<Rightarrow> 'k \<Rightarrow> bool) \<Rightarrow> ('k \<Rightarrow> 'k \<Rightarrow> bool) \<Rightarrow> ('i, 'k) blob_op list \<Rightarrow> 'i \<Rightarrow> 'k \<Rightarrow> bytes option \<Rightarrow> bytes option"
where
  "replay same near [] i k cur = cur"
| "replay same near (Put i' k' b # ops) i k cur =
     replay same near ops i k (if i' = i \<and> same k' k then Some b else cur)"
| "replay same near (Del i' k' # ops) i k cur =
     replay same near ops i k (if i' = i \<and> near k' k then None else cur)"

locale blob_store =
  fixes inv :: "'s \<Rightarrow> bool"
    and ok :: "'i \<Rightarrow> bool"
    and get :: "'s \<Rightarrow> 'i \<Rightarrow> 'k \<Rightarrow> bytes option"
    and put :: "'i \<Rightarrow> 'k \<Rightarrow> bytes \<Rightarrow> 's \<Rightarrow> 's"
    and del :: "'i \<Rightarrow> 'k \<Rightarrow> 's \<Rightarrow> 's"
    and same :: "'k \<Rightarrow> 'k \<Rightarrow> bool"
    and near :: "'k \<Rightarrow> 'k \<Rightarrow> bool"
  assumes put_inv: "inv s \<Longrightarrow> ok i \<Longrightarrow> inv (put i k b s)"
    and del_inv: "inv s \<Longrightarrow> ok i \<Longrightarrow> inv (del i k s)"
    and get_put: "inv s \<Longrightarrow> ok i \<Longrightarrow>
      get (put i k b s) i' k' = (if i = i' \<and> same k k' then Some b else get s i' k')"
    and get_del: "inv s \<Longrightarrow> ok i \<Longrightarrow>
      get (del i k s) i' k' = (if i = i' \<and> near k k' then None else get s i' k')"
begin

fun apply_op :: "('i, 'k) blob_op \<Rightarrow> 's \<Rightarrow> 's" where
  "apply_op (Put i k b) s = put i k b s"
| "apply_op (Del i k) s = del i k s"

lemma apply_op_inv: "inv s \<Longrightarrow> ok (op_owner p) \<Longrightarrow> inv (apply_op p s)"
  by (cases p) (simp_all add: put_inv del_inv)

lemma history_inv: "inv s \<Longrightarrow> list_all (ok \<circ> op_owner) ops \<Longrightarrow> inv (fold apply_op ops s)"
  by (induction ops arbitrary: s) (simp_all add: apply_op_inv)

lemma history_get:
  "inv s \<Longrightarrow> list_all (ok \<circ> op_owner) ops \<Longrightarrow>
   get (fold apply_op ops s) i k = replay same near ops i k (get s i k)"
proof (induction ops arbitrary: s)
  case (Cons p ops)
  have "get (apply_op p s) i k = replay same near [p] i k (get s i k)"
    using Cons.prems by (cases p) (auto simp: get_put get_del)
  moreover have "get (fold apply_op ops (apply_op p s)) i k =
      replay same near ops i k (get (apply_op p s) i k)"
    using Cons.prems by (intro Cons.IH apply_op_inv) simp_all
  ultimately show ?case
    by (cases p) simp_all
qed simp

end

definition store_get :: "store \<times> fs \<Rightarrow> string \<Rightarrow> string \<Rightarrow> bytes option" where
  "store_get st nid key =
     (case store_Read (fst st) (snd st) nid key of Inl _ \<Rightarrow> None | Inr (n, r) \<Rightarrow> Some (fst (drain r)))"

definition store_put :: "json \<Rightarrow> string \<Rightarrow> string \<Rightarrow> bytes \<Rightarrow> store \<times> fs \<Rightarrow> store \<times> fs" where
  "store_put J nid key b st =
     (case store_Write J (fst st) (snd st) nid key (bytes_reader b) of (s', fs', _) \<Rightarrow> (s', fs'))"

definition store_del :: "string \<Rightarrow> string \<Rightarrow> store \<times> fs \<Rightarrow> store \<times> fs" where
  "store_del nid key st = (fst st, fst (store_Delete (fst st) (snd st) nid key))"

lemma store_get_vault: "store_inv s fs \<Longrightarrow> store_get (s, fs) nid key = vault s fs (nid, HashKey key)"
proof (cases "ValidateNodeID nid")
  case (Inl e)
  then show ?thesis
    by (simp add: store_get_def store_Read_def resolvePath_invalid vault_def)
next
  case (Inr u)
  assume "store_inv s fs"
  with Inr Read_vault [of s fs nid key] show ?thesis
    by (auto simp: store_get_def split: option.splits)
qed

interpretation blobs: blob_store
  "\<lambda>st. store_inv (fst st) (snd st)" "\<lambda>nid. valid_id nid" store_get "store_put J" store_del
  "\<lambda>k k'. HashKey k = HashKey k'" "\<lambda>k k'. take 5 (HashKey k) = take 5 (HashKey k')" for J
proof
  fix st :: "store \<times> fs" and i k b i' k'
  assume inv: "store_inv (fst st) (snd st)" and ok: "valid_id i"
  obtain fs' where w: "store_put J i k b st = (learn (fst st) k, fs')" "store_inv (fst st) fs'"
    "vault (fst st) fs' = (vault (fst st) (snd st))((i, HashKey k) \<mapsto> b)"
  proof -
    obtain fs' where fs': "store_Write J (fst st) (snd st) i k (bytes_reader b) =
        (learn (fst st) k, fs', case drain (bytes_reader b) of (d, None) \<Rightarrow> Inr (length d) | (d, Some e) \<Rightarrow> Inl e)"
      "store_inv (fst st) fs'"
      "vault (fst st) fs' = (vault (fst st) (snd st))((i, HashKey k) \<mapsto> fst (drain (bytes_reader b)))"
      using Write_vault [OF inv ok] by metis
    show thesis
      by (rule that [of fs']) (use fs' in \<open>simp_all add: store_put_def\<close>)
  qed
  obtain fd where d: "store_del i k st = (fst st, fd)" "store_inv (fst st) fd"
    "vault (fst st) fd = (\<lambda>(n, h). if n = i \<and> take 5 h = take 5 (HashKey k) then None
                            else vault (fst st) (snd st) (n, h))"
  proof -
    obtain fs' where fs': "store_Delete (fst st) (snd st) i k = (fs', None)" "store_inv (fst st) fs'"
      "vault (fst st) fs' = (\<lambda>(n, h). if n = i \<and> take 5 h = take 5 (HashKey k) then None
                              else vault (fst st) (snd st) (n, h))"
      using Delete_vault [OF inv ok] by blast
    show thesis
      by (rule that [of fs']) (use fs' in \<open>simp_all add: store_del_def\<close>)
  qed
  have g: "store_get st i' k' = vault (fst st) (snd st) (i', HashKey k')"
    using store_get_vault [OF inv] by simp
  show "store_inv (fst (store_put J i k b st)) (snd (store_put J i k b st))"
    and "store_inv (fst (store_del i k st)) (snd (store_del i k st))"
    using w d by simp_all
  show "store_get (store_put J i k b st) i' k' =
      (if i = i' \<and> HashKey k = HashKey k' then Some b else store_get st i' k')"
    using w g by (auto simp: store_get_vault)
  show "store_get (store_del i k st) i' k' =
      (if i = i' \<and> take 5 (HashKey k) = take 5 (HashKey k') then None else store_get st i' k')"
    using d g by (auto simp: store_get_vault)
qed

text \<open>What the store relies on: reading back a key map into an empty one gives the same map.\<close>

definition json_ok :: "json \<Rightarrow> bool" where
  "json_ok J \<longleftrightarrow> (\<forall>m. distinct (map fst m) \<longrightarrow>
     (\<exists>m'. Unmarshal J (MarshalIndent J m) [] = (m', None) \<and> map_of m' = map_of m))"

text \<open>An empty disk is a well-formed store.\<close>

lemma store_inv_empty:
  assumes "good_root (Root s)" and "PathTransformFunc s = CASPathTransformFunc"
  shows "store_inv s []"
proof -
  note r = path_of_root [OF assms(1)]
  have get: "fs_get [] q = (if is_root q then Some Dir else None)" for q
    by (simp add: fs_get_def)
  have "\<not> is_root (node_path s nid @ q)" "\<not> is_root (meta_path s)" for nid q
    using r by (auto simp: node_path_def meta_path_def is_root_def append_eq_Cons_conv)
  moreover have "dir_route [] [] (path_of (Root s))"
    by (simp add: dir_route_def no_file_def get)
  ultimately show ?thesis
    using assms by (simp add: store_inv_def get fs_wf_def)
qed

lemma vault_empty: "good_root (Root s) \<Longrightarrow> vault s [] = Map.empty"
  using path_of_root [of "Root s"]
  by (auto simp: fun_eq_iff vault_def fs_get_def addr_path_def node_path_def is_root_def append_eq_Cons_conv)

lemma NewStore_keeps:
  assumes "opt_Root o1 \<noteq> []" and "opt_PathTransformFunc o1 = Some CASPathTransformFunc"
  shows "\<exists>m. NewStore J o1 fs = \<lparr>Root = opt_Root o1, PathTransformFunc = CASPathTransformFunc, keyMap = m\<rparr>"
  using assms by (auto simp: NewStore_def loadKeyMap_def Let_def split: sum.splits prod.splits)

end
