(* ===== verification/Gc.thy ===== *)
theory Gc
  imports StoreFacts
begin

text \<open>
  \<open>internal/storage/gc.go\<close>: the garbage collector of a node's directory.  Both passes are
  \<open>filepath.Walk\<close> with a callback that deletes while the walk is under way.
\<close>

section \<open>The collector\<close>

record CleanupStats =
  CorruptedFiles :: nat
  OrphanedFiles :: nat
  RemovedFiles :: nat

record GarbageCollector =
  gc_store :: store
  gc_nodeID :: string
  cleanupInterval :: int
  initialDelay :: int
  integrityEnabled :: bool
  gc_stopped :: bool

text \<open>\<open>None\<close>: the process exits.\<close>

definition NewGarbageCollector :: "store \<Rightarrow> string \<Rightarrow> int \<Rightarrow> int \<Rightarrow> GarbageCollector option" where
  "NewGarbageCollector s nid gcInterval delay =
     (case ValidateNodeID nid of
        Inl _ \<Rightarrow> None
      | Inr _ \<Rightarrow> Some \<lparr>gc_store = s, gc_nodeID = nid, cleanupInterval = gcInterval,
                       initialDelay = delay, integrityEnabled = True, gc_stopped = False\<rparr>)"

text \<open>Closing a closed channel panics.\<close>

definition gc_Stop :: "GarbageCollector \<Rightarrow> GarbageCollector go" where
  "gc_Stop gc = (if gc_stopped gc then Panic ''close of closed channel'' else Return (gc\<lparr>gc_stopped := True\<rparr>))"

definition calculateFileHash :: "fs \<Rightarrow> string \<Rightarrow> string result" where
  "calculateFileHash fs filePath =
     (case os_ReadFile fs filePath of
        Inl e \<Rightarrow> Inl e
      | Inr b \<Rightarrow> Inr (EncodeToString (Sum256 b)))"

definition integrity_cb :: "CleanupStats walk_fn" where
  "integrity_cb p r st =
     (case r of
        Inl _ \<Rightarrow> (st, None)
      | Inr Dir \<Rightarrow> (st, None)
      | Inr (File _) \<Rightarrow>
         (let expectedHash = base_name p
          in if length expectedHash \<noteq> 64 then (st, None)
             else case calculateFileHash (fst st) p of
               Inl _ \<Rightarrow> (st, None)
             | Inr actualHash \<Rightarrow>
                 if actualHash \<noteq> expectedHash then
                   (let stats = (snd st)\<lparr>CorruptedFiles := Suc (CorruptedFiles (snd st))\<rparr>
                    in case os_RemoveAll (fst st) (Dir_of p) of
                         Inl _ \<Rightarrow> ((fst st, stats), None)
                       | Inr fs' \<Rightarrow> ((fs', stats\<lparr>RemovedFiles := Suc (RemovedFiles stats)\<rparr>), None))
                 else (st, None)))"

text \<open>A pass over the node directory; \<open>None\<close> would be a walk that does not end.\<close>

definition gc_pass ::
    "CleanupStats walk_fn \<Rightarrow> string \<Rightarrow> CleanupStats walk_st \<Rightarrow>
     (CleanupStats walk_st \<times> error option) option" where
  "gc_pass cb nodeDir st =
     (case os_Stat (fst st) nodeDir of
        Inl e \<Rightarrow> if is_not_exist e then Some (st, None) else Walk cb nodeDir st
      | Inr _ \<Rightarrow> Walk cb nodeDir st)"

definition verifyIntegrity ::
    "GarbageCollector \<Rightarrow> CleanupStats walk_st \<Rightarrow> (CleanupStats walk_st \<times> error option) option" where
  "verifyIntegrity gc st =
     (case resolvePath (gc_store gc) (gc_nodeID gc) [] of
        Inl e \<Rightarrow> Some (st, Some e)
      | Inr nodeDir \<Rightarrow> gc_pass integrity_cb nodeDir st)"

definition orphan_cb :: "string \<Rightarrow> CleanupStats walk_fn" where
  "orphan_cb nodeDir p r st =
     (case r of
        Inl _ \<Rightarrow> (st, None)
      | Inr (File _) \<Rightarrow> (st, None)
      | Inr Dir \<Rightarrow>
         if p \<noteq> nodeDir then
           (case os_ReadDir (fst st) p of
              Inl _ \<Rightarrow> (st, None)
            | Inr entries \<Rightarrow>
                if length entries = 0 then
                  (case os_Remove (fst st) p of
                     Inl _ \<Rightarrow> (st, None)
                   | Inr fs' \<Rightarrow>
                       ((fs', (snd st)\<lparr>OrphanedFiles := Suc (OrphanedFiles (snd st)),
                                       RemovedFiles := Suc (RemovedFiles (snd st))\<rparr>), None))
                else (st, None))
         else (st, None))"

definition cleanOrphanedFiles ::
    "GarbageCollector \<Rightarrow> CleanupStats walk_st \<Rightarrow> (CleanupStats walk_st \<times> error option) option" where
  "cleanOrphanedFiles gc st =
     (case resolvePath (gc_store gc) (gc_nodeID gc) [] of
        Inl e \<Rightarrow> Some (st, Some e)
      | Inr nodeDir \<Rightarrow> gc_pass (orphan_cb nodeDir) nodeDir st)"

text \<open>The errors of the two passes are only logged.\<close>

definition performCleanup :: "GarbageCollector \<Rightarrow> fs \<Rightarrow> CleanupStats walk_st option" where
  "performCleanup gc fs =
     (let st = (fs, \<lparr>CorruptedFiles = 0, OrphanedFiles = 0, RemovedFiles = 0\<rparr>)
      in case (if integrityEnabled gc then map_option fst (verifyIntegrity gc st) else Some st) of
           None \<Rightarrow> None
         | Some st1 \<Rightarrow> map_option fst (cleanOrphanedFiles gc st1))"

text \<open>The loop: which channel is ready next; it returns on a cancelled context or a stop.\<close>

datatype gc_event = InitialDelay | Ticker | CtxDone | StopChan

fun gc_run :: "GarbageCollector \<Rightarrow> gc_event list \<Rightarrow> fs \<Rightarrow> (fs \<times> bool) option" where
  "gc_run gc [] fs = Some (fs, True)"
| "gc_run gc (CtxDone # es) fs = Some (fs, False)"
| "gc_run gc (StopChan # es) fs = Some (fs, False)"
| "gc_run gc (_ # es) fs =
     (case performCleanup gc fs of None \<Rightarrow> None | Some st \<Rightarrow> gc_run gc es (fst st))"

text \<open>The goroutine that \<open>Start\<close> begins; a ticker needs a positive interval.\<close>

definition gc_Start :: "GarbageCollector \<Rightarrow> gc_event list \<Rightarrow> fs \<Rightarrow> (fs \<times> bool) option go" where
  "gc_Start gc es fs =
     (if cleanupInterval gc \<le> 0 then Panic ''non-positive interval for NewTicker'' else Return (gc_run gc es fs))"

definition GetStats :: "int \<Rightarrow> nat \<times> nat \<times> int" where
  "GetStats now = (0, 0, now)"

definition VerifyFile :: "GarbageCollector \<Rightarrow> fs \<Rightarrow> string \<Rightarrow> bool result" where
  "VerifyFile gc fs key =
     (let pathKey = PathTransformFunc (gc_store gc) key
      in case resolvePath (gc_store gc) (gc_nodeID gc) (FullPath pathKey) of
           Inl e \<Rightarrow> Inl e
         | Inr fullPath \<Rightarrow>
            (case os_Stat fs fullPath of
               Inl e \<Rightarrow>
                 if is_not_exist e then Inl (Errorf ''file does not exist'' [])
                 else (case calculateFileHash fs fullPath of
                         Inl e' \<Rightarrow> Inl (Wrap ''failed to calculate hash: %w'' e')
                       | Inr actualHash \<Rightarrow> Inr (actualHash = Filename pathKey))
             | Inr _ \<Rightarrow>
                 (case calculateFileHash fs fullPath of
                    Inl e' \<Rightarrow> Inl (Wrap ''failed to calculate hash: %w'' e')
                  | Inr actualHash \<Rightarrow> Inr (actualHash = Filename pathKey))))"

section \<open>The integrity pass\<close>

text \<open>What the pass takes for corrupted: a name of 64 characters that is not the hash of the content.\<close>

definition corrupted :: "string \<Rightarrow> bytes \<Rightarrow> bool" where
  "corrupted h b \<longleftrightarrow> length h = 64 \<and> EncodeToString (Sum256 b) \<noteq> h"

definition bad_file :: "fs \<Rightarrow> path \<Rightarrow> bool" where
  "bad_file fs q \<longleftrightarrow> (case fs_get fs q of Some (File b) \<Rightarrow> corrupted (last q) b | _ \<Rightarrow> False)"

text \<open>
  During the pass an entry of the original tree is still there, or went with the directory of a
  corrupted file, with everything else in it.
\<close>

definition int_inv :: "store \<Rightarrow> string \<Rightarrow> fs \<Rightarrow> CleanupStats walk_st \<Rightarrow> bool" where
  "int_inv s nid fs0 st \<longleftrightarrow> good_root (Root s) \<and> fs_wf (fst st) \<and> fs_sub (fst st) fs0 \<and>
     (\<forall>q i. fs_get fs0 q = Some i \<longrightarrow> fs_get (fst st) q = Some i \<or>
        (\<exists>d h. bad_file fs0 (d @ [h]) \<and> below (node_path s nid) (d @ [h]) \<and> below d q \<and>
           (\<forall>q'. below d q' \<longrightarrow> fs_get (fst st) q' = None)))"

definition node_vis :: "store \<Rightarrow> string \<Rightarrow> string \<Rightarrow> bool" where
  "node_vis s nid p \<longleftrightarrow> Clean p = p \<and> p \<noteq> [] \<and> below (node_path s nid) (path_of p)"

lemma node_vis_Join:
  assumes "node_vis s nid p" and "norm_comp x"
  shows "node_vis s nid (Join [p, x])"
proof -
  have p: "p \<noteq> []" "below (node_path s nid) (path_of p)"
    using assms(1) by (simp_all add: node_vis_def)
  have "Clean (Join [p, x]) = Join [p, x]"
    by (simp add: Join_nonempty [OF p(1)])
  moreover have "below (node_path s nid) (path_of (Join [p, x]))"
    using p(2) by (auto simp: path_of_Join2 [OF p(1) assms(2)] below_iff)
  ultimately show ?thesis
    using Join_not_Nil [OF p(1)] by (simp add: node_vis_def)
qed

lemma below_node_not_root:
  assumes "good_root (Root s)" and "below (node_path s nid) (d @ [h])"
  shows "\<not> is_root d" and "\<not> is_root (d @ [h])"
proof -
  obtain r where r: "d @ [h] = path_of (Root s) @ nid # r"
    using assms(2) by (auto simp: below_iff node_path_def)
  then have "d = path_of (Root s) @ butlast (nid # r)"
    by (metis butlast_append butlast_snoc list.discI)
  with path_of_root [OF assms(1)] show "\<not> is_root d"
    by (auto simp: is_root_def append_eq_Cons_conv)
  with is_root_butlast [of "d @ [h]"] show "\<not> is_root (d @ [h])"
    by auto
qed

lemma integrity_cb_cases:
  assumes "integrity_cb p r st = (st', e)"
  obtains "fst st' = fst st" "e = None" "\<And>b. r = Inr (File b) \<Longrightarrow> length (base_name p) = 64 \<Longrightarrow>
      calculateFileHash (fst st) p = Inr (base_name p) \<or> (\<exists>e. calculateFileHash (fst st) p = Inl e) \<or>
      (\<exists>e. os_RemoveAll (fst st) (Dir_of p) = Inl e)"
  | h where "e = None" "length (base_name p) = 64" "calculateFileHash (fst st) p = Inr h" "h \<noteq> base_name p"
      "os_RemoveAll (fst st) (Dir_of p) = Inr (fst st')"
  using assms
  by (auto simp: integrity_cb_def Let_def split: sum.splits inode.splits if_splits)

lemma calculateFileHash_Inr:
  "calculateFileHash fs p = Inr h \<Longrightarrow> \<exists>b. fs_get fs (path_of p) = Some (File b) \<and> h = EncodeToString (Sum256 b)"
  by (auto simp: calculateFileHash_def os_ReadFile_def dest!: os_Stat_Inr split: sum.splits inode.splits)

lemma calculateFileHash_get:
  "fs_wf fs \<Longrightarrow> p \<noteq> [] \<Longrightarrow> fs_get fs (path_of p) = Some (File b) \<Longrightarrow>
   calculateFileHash fs p = Inr (EncodeToString (Sum256 b))"
  by (simp add: calculateFileHash_def os_ReadFile_def os_Stat_get)

text \<open>Removing the directory of an existing file succeeds.\<close>

lemma remove_parent:
  assumes "fs_wf fs" and "good_root (Root s)" and "node_vis s nid p"
    and "fs_get fs (path_of p) = Some (File b)"
  obtains d h where "path_of p = d @ [h]" and "h = base_name p" and "\<not> is_root d"
    and "os_RemoveAll fs (Dir_of p) = Inr (fs_remove fs d)"
proof -
  have vis: "Clean p = p" "below (node_path s nid) (path_of p)"
    using assms(3) by (simp_all add: node_vis_def)
  then have "path_of p \<noteq> []"
    by (auto simp: below_iff node_path_def)
  then obtain d h where p: "path_of p = d @ [h]"
    by (meson rev_exhaust)
  note nr = below_node_not_root [OF assms(2) vis(2) [unfolded p]]
  have "norm_comp h"
    using fs_wf_name [OF assms(1,4)] nr(2) p by simp
  note dir = Dir_of_path [OF vis(1) p this]
  have "fs_stat fs d = Inr Dir"
    using fs_wf_prefix [OF assms(1), of d "[h]"] assms(4) p by (simp add: fs_stat_get assms(1))
  then have "os_RemoveAll fs (Dir_of p) = Inr (fs_remove fs d)"
    using dir nr(1) by (simp add: os_RemoveAll_def)
  then show ?thesis
    using that p nr(1) by (simp add: base_name_def)
qed

lemma int_inv_remove:
  assumes "int_inv s nid fs0 st" and "below (node_path s nid) (d @ [h])" and "\<not> is_root d"
    and "fs_get (fst st) (d @ [h]) = Some (File b)" and "corrupted h b"
  shows "int_inv s nid fs0 (fs_remove (fst st) d, x)"
proof -
  let ?f = "fs_remove (fst st) d"
  have inv: "good_root (Root s)" "fs_wf (fst st)" "fs_sub (fst st) fs0"
    using assms(1) by (simp_all add: int_inv_def)
  have bad: "bad_file fs0 (d @ [h])"
    using fs_sub_get [OF inv(3) assms(4)] assms(5) by (simp add: bad_file_def)
  have gone: "fs_get ?f q = None" if "below d q" for q
    using that assms(3) by (auto simp: fs_get_remove below_iff is_root_def append_eq_Cons_conv)
  have keep: "fs_get ?f q = fs_get (fst st) q" if "\<not> below d q" for q
    using that by (simp add: fs_get_remove)
  have less: "fs_get (fst st) q = None \<Longrightarrow> fs_get ?f q = None" for q
    using gone keep by metis
  have "fs_get ?f q = Some i \<or>
      (\<exists>d h. bad_file fs0 (d @ [h]) \<and> below (node_path s nid) (d @ [h]) \<and> below d q \<and>
         (\<forall>q'. below d q' \<longrightarrow> fs_get ?f q' = None))" if "fs_get fs0 q = Some i" for q i
  proof (cases "below d q")
    case True
    with bad assms(2) gone show ?thesis by blast
  next
    case False
    with assms(1) that keep less show ?thesis
      unfolding int_inv_def by metis
  qed
  moreover have "fs_sub ?f fs0"
    using fs_sub_trans [OF fs_sub_remove inv(3)] .
  ultimately show ?thesis
    using inv(1,2) by (simp add: int_inv_def fs_wf_remove)
qed

definition sound_file :: "path \<Rightarrow> inode \<Rightarrow> bool" where
  "sound_file q i \<longleftrightarrow> (case i of Dir \<Rightarrow> True | File b \<Rightarrow> \<not> corrupted (last q) b)"

text \<open>One call of the callback: nothing is removed, or the directory of a corrupted file.\<close>

lemma integrity_cb_step:
  assumes "int_inv s nid fs0 st" and "node_vis s nid p" and "integrity_cb p r st = (st', e)"
  obtains "fst st' = fst st" | d h b where "fst st' = fs_remove (fst st) d" "path_of p = d @ [h]"
      "\<not> is_root d" "fs_get (fst st) (d @ [h]) = Some (File b)" "corrupted h b"
proof (cases rule: integrity_cb_cases [OF assms(3)])
  case (2 h)
  have "fs_wf (fst st)" "good_root (Root s)"
    using assms(1) by (simp_all add: int_inv_def)
  moreover obtain b where b: "fs_get (fst st) (path_of p) = Some (File b)" "h = EncodeToString (Sum256 b)"
    using calculateFileHash_Inr 2 by blast
  ultimately show thesis
    using remove_parent [OF _ _ assms(2) b(1)] 2 that(2) by (metis Inr_inject corrupted_def)
qed (use that in blast)

text \<open>A file that is still there after its visit is sound.\<close>

lemma integrity_cb_visit:
  assumes "int_inv s nid fs0 st" and "node_vis s nid p" and "fs_get (fst st) (path_of p) = Some i"
    and "integrity_cb p (Inr i) st = (st', None)" and "fs_get (fst st') (path_of p) = Some i"
  shows "sound_file (path_of p) i"
proof (cases i)
  case (File b)
  have wf: "fs_wf (fst st)" and root: "good_root (Root s)" and ne: "p \<noteq> []"
    using assms(1,2) by (simp_all add: int_inv_def node_vis_def)
  note i = assms(3) [unfolded File]
  obtain d h where d: "path_of p = d @ [h]" "h = base_name p" "\<not> is_root d"
    "os_RemoveAll (fst st) (Dir_of p) = Inr (fs_remove (fst st) d)"
    using remove_parent [OF wf root assms(2) i] .
  show ?thesis
  proof (cases rule: integrity_cb_cases [OF assms(4)])
    case 1
    with File d calculateFileHash_get [OF wf ne i] show ?thesis
      by (auto simp: sound_file_def corrupted_def base_name_def)
  next
    case (2 h')
    with d have "fst st' = fs_remove (fst st) d" by simp
    with assms(5) d(1,3) is_root_butlast [of "d @ [h]"] show ?thesis
      by (auto simp: fs_get_remove split: if_splits)
  qed
qed (simp add: sound_file_def)

interpretation verifier: walker integrity_cb "int_inv s nid fs0" sound_file "node_vis s nid"
  for s nid fs0
proof
  fix p x st r st' e
  show "node_vis s nid p \<Longrightarrow> p \<noteq> []"
    by (simp add: node_vis_def)
  show "node_vis s nid p \<Longrightarrow> norm_comp x \<Longrightarrow> node_vis s nid (Join [p, x])"
    by (rule node_vis_Join)
  show "int_inv s nid fs0 st \<Longrightarrow> fs_wf (fst st)"
    by (simp add: int_inv_def)
  show "sound_file (path_of p) i" if "int_inv s nid fs0 st" "node_vis s nid p" "fs_get (fst st) (path_of p) = Some i"
    "integrity_cb p (Inr i) st = (st', None)" "fs_get (fst st') (path_of p) = Some i" for i
    using that by (rule integrity_cb_visit)
  assume inv: "int_inv s nid fs0 st" and vis: "node_vis s nid p" and cb: "integrity_cb p r st = (st', e)"
  from inv vis cb show "int_inv s nid fs0 st'"
  proof (cases rule: integrity_cb_step)
    case 1
    with inv show ?thesis by (simp add: int_inv_def)
  next
    case (2 d h b)
    with int_inv_remove [OF inv _ 2(3-5), of "snd st'"] vis show ?thesis
      by (metis node_vis_def prod.collapse)
  qed
  from inv vis cb show "fs_sub (fst st') (fst st)"
    by (cases rule: integrity_cb_step) simp_all
qed

text \<open>A corrupted file of the node is a slot of the map.\<close>

lemma bad_file_addr:
  assumes "store_inv s fs" and "valid_id nid" and "bad_file fs q" and "below (node_path s nid) q"
  obtains h b where "q = addr_path s nid h" and "vault s fs (nid, h) = Some b" and "corrupted h b"
proof -
  obtain r where r: "q = node_path s nid @ r"
    using assms(4) by (auto simp: below_iff)
  obtain b where b: "fs_get fs (node_path s nid @ r) = Some (File b)" "corrupted (last q) b"
    using assms(3) r by (auto simp: bad_file_def split: option.splits inode.splits)
  have "shape_ok r (File b)"
    using store_inv_D(6) [OF assms(1,2) b(1)] .
  then have "r = hash_blocks (last r) @ [last r]" "last q = last r"
    by (simp_all add: shape_ok_def r)
  then have q: "q = addr_path s nid (last q)"
    using r by (simp add: addr_path_def)
  moreover have "vault s fs (nid, last q) = Some b"
    using q b(1) r assms(2) by (simp add: vault_def)
  ultimately show ?thesis
    using that b(2) by blast
qed

lemma vault_length:
  assumes "store_inv s fs" and "vault s fs (nid, h) = Some b"
  shows "length h = 64"
proof -
  have "valid_id nid" "fs_get fs (node_path s nid @ hash_blocks h @ [h]) = Some (File b)"
    using assms(2) by (auto simp: vault_def addr_path_def split: if_splits option.splits inode.splits)
  from store_inv_D(6) [OF assms(1) this] show ?thesis
    by (simp add: shape_ok_def)
qed

text \<open>A slot is tainted when a corrupted file is in its directory.\<close>

definition tainted :: "store \<Rightarrow> fs \<Rightarrow> string \<Rightarrow> string \<Rightarrow> bool" where
  "tainted s fs nid h \<longleftrightarrow>
     (\<exists>h' b. vault s fs (nid, h') = Some b \<and> corrupted h' b \<and> hash_blocks h' = hash_blocks h)"

lemma below_dir_addr:
  assumes "d @ [x] = addr_path s nid x'" and "below d (addr_path s n h)"
  shows "n = nid \<and> hash_blocks x' = hash_blocks h"
proof -
  have "d = node_path s nid @ hash_blocks x'"
    using assms(1) by (simp add: addr_path_def)
  with assms(2) show ?thesis
    by (simp add: below_def addr_path_def node_path_def)
qed

lemma vault_get:
  "vault s fs (n, h) = Some b \<longleftrightarrow> valid_id n \<and> fs_get fs (addr_path s n h) = Some (File b)"
  by (auto simp: vault_def split: option.splits inode.splits)

lemma int_inv_vault:
  assumes "store_inv s fs" and "valid_id nid" and inv: "int_inv s nid fs (fs', x)"
    and settled: "\<And>q i. below (node_path s nid) q \<Longrightarrow> fs_get fs' q = Some i \<Longrightarrow> sound_file q i"
  shows "vault s fs' (n, h) = (if n = nid \<and> tainted s fs nid h then None else vault s fs (n, h))"
proof -
  have sub: "vault s fs' (n, h) = Some b \<Longrightarrow> vault s fs (n, h) = Some b" for n h b
    using inv by (auto simp: vault_get int_inv_def fs_sub_def)
  have lost: "n = nid \<and> (\<exists>x b. vault s fs (nid, x) = Some b \<and> corrupted x b \<and> hash_blocks x = hash_blocks h \<and>
      (\<forall>h'. hash_blocks h' = hash_blocks x \<longrightarrow> vault s fs' (nid, h') = None))"
    if there: "vault s fs (n, h) = Some b" and "vault s fs' (n, h) = None" for n h b
  proof -
    have "fs_get fs (addr_path s n h) = Some (File b)" "fs_get fs' (addr_path s n h) \<noteq> Some (File b)"
      using that by (auto simp: vault_get) (auto simp: vault_def)
    then obtain d y where d: "bad_file fs (d @ [y])" "below (node_path s nid) (d @ [y])"
      "below d (addr_path s n h)" and gone: "\<forall>q'. below d q' \<longrightarrow> fs_get fs' q' = None"
      using inv unfolding int_inv_def by (metis fst_conv)
    obtain x c where x: "d @ [y] = addr_path s nid x" "vault s fs (nid, x) = Some c" "corrupted x c"
      using bad_file_addr [OF assms(1,2) d(1,2)] .
    have "vault s fs' (nid, h') = None" if "hash_blocks h' = hash_blocks x" for h'
    proof -
      have "below d (addr_path s nid h')"
        using x(1) that by (simp add: addr_path_def below_def)
      with gone show ?thesis by (simp add: vault_def)
    qed
    with below_dir_addr [OF x(1) d(3)] x(2,3) show ?thesis by blast
  qed
  show ?thesis
  proof (cases "n = nid \<and> tainted s fs nid h")
    case True
    then obtain x b where x: "vault s fs (nid, x) = Some b" "corrupted x b" "hash_blocks x = hash_blocks h"
      by (auto simp: tainted_def)
    have "vault s fs' (nid, x) = None"
    proof (rule ccontr)
      assume "vault s fs' (nid, x) \<noteq> None"
      with sub x(1) have "vault s fs' (nid, x) = Some b"
        by (cases "vault s fs' (nid, x)") auto
      then have "sound_file (addr_path s nid x) (File b)"
        by (intro settled) (simp_all add: vault_get addr_path_def)
      with x(2) show False by (simp add: sound_file_def addr_path_def)
    qed
    with lost [OF x(1)] x(3) have "vault s fs' (nid, h) = None"
      by metis
    with True show ?thesis by simp
  next
    case False
    with lost [of n h] sub [of n h] show ?thesis
      unfolding tainted_def
      by (cases "vault s fs' (n, h)"; cases "vault s fs (n, h)") auto
  qed
qed

lemma store_inv_sub:
  assumes "store_inv s fs" and "fs_wf fs'" and "fs_sub fs' fs"
  shows "store_inv s fs'"
proof -
  note inv = store_inv_D [OF assms(1)]
  have "no_file fs' q" if "no_file fs q" for q
    using that fs_sub_get [OF assms(3), of q] by (cases "fs_get fs' q") (auto simp: no_file_def)
  then have "dir_route fs' [] (path_of (Root s))"
    using inv(4) by (simp add: dir_route_def)
  moreover have "fs_get fs' (meta_path s) \<noteq> Some Dir"
    using inv(5) fs_sub_get [OF assms(3)] by blast
  ultimately show ?thesis
    using inv assms(2) fs_sub_get [OF assms(3)] unfolding store_inv_def by blast
qed

lemma snd_integrity_cb: "snd (integrity_cb p r st) = None"
  by (auto simp: integrity_cb_def Let_def split: sum.splits inode.splits)

lemma node_dir:
  assumes "good_root (Root s)" and "valid_id nid"
  obtains d where "resolvePath s nid [] = Inr d" and "path_of d = node_path s nid"
    and "node_vis s nid d" and "\<not> is_root (path_of d)"
proof -
  obtain d where d: "resolvePath s nid [] = Inr d" "d \<noteq> []" "path_of d = node_path s nid"
    using resolve_node [OF assms] .
  have "d = Join [Clean (Root s), nid, []]"
    using d(1) assms(2) by (simp add: resolvePath_def Let_def split: if_splits)
  then have "Clean d = d"
    by (simp add: Join_nonempty)
  moreover have "\<not> is_root (path_of d)"
    using path_of_root [OF assms(1)] by (auto simp: d(3) node_path_def is_root_def)
  ultimately show ?thesis
    using that d by (simp add: node_vis_def)
qed

text \<open>A missing node directory is skipped by both passes; otherwise they are the walk.\<close>

lemma gc_pass_missing:
  assumes "store_inv s (fst st)" and "valid_id nid" and "path_of d = node_path s nid" and "d \<noteq> []"
    and "fs_get (fst st) (node_path s nid) = None"
  shows "gc_pass cb d st = Some (st, None)" and "vault s (fst st) (nid, h) = None"
proof -
  have "fs_stat (fst st) (path_of d) = Inl ENOENT"
    using assms(5) stat_at_missing [of "fst st" "[]" "path_of (Root s)" nid] store_inv_D(4) [OF assms(1)]
    by (simp add: assms(3) node_path_def fs_stat_def)
  then show "gc_pass cb d st = Some (st, None)"
    using assms(4) by (simp add: gc_pass_def os_Stat_def os_err_def)
  show "vault s (fst st) (nid, h) = None"
    using assms(5) fs_wf_prefix [OF store_inv_D(1) [OF assms(1)], of "node_path s nid"]
    by (auto simp: vault_def addr_path_def split: option.split inode.split)
qed

lemma gc_pass_walk:
  assumes "fs_wf (fst st)" and "d \<noteq> []" and "fs_get (fst st) (path_of d) = Some i"
  shows "gc_pass cb d st = Walk cb d st"
  using os_Stat_get [OF assms] by (simp add: gc_pass_def)

lemma verifyIntegrity_vault:
  assumes "store_inv (gc_store gc) fs" and "valid_id (gc_nodeID gc)"
  obtains fs' stats' where "verifyIntegrity gc (fs, stats) = Some ((fs', stats'), None)"
    and "store_inv (gc_store gc) fs'"
    and "\<And>n h. vault (gc_store gc) fs' (n, h) =
      (if n = gc_nodeID gc \<and> tainted (gc_store gc) fs (gc_nodeID gc) h then None
       else vault (gc_store gc) fs (n, h))"
proof -
  let ?s = "gc_store gc" and ?nid = "gc_nodeID gc"
  note inv = store_inv_D [OF assms(1)]
  obtain d where d: "resolvePath ?s ?nid [] = Inr d" "path_of d = node_path ?s ?nid"
    "node_vis ?s ?nid d" "\<not> is_root (path_of d)"
    using node_dir [OF inv(2) assms(2)] .
  have ne: "d \<noteq> []"
    using d(3) by (simp add: node_vis_def)
  have run: "verifyIntegrity gc (fs, stats) = gc_pass integrity_cb d (fs, stats)"
    by (simp add: verifyIntegrity_def d(1))
  show ?thesis
  proof (cases "fs_get fs (path_of d)")
    case None
    with gc_pass_missing [of ?s "(fs, stats)", OF _ assms(2) d(2) ne] assms(1) d(2) run show ?thesis
      by (intro that [of fs stats]) (auto simp: tainted_def)
  next
    case (Some i)
    have start: "int_inv ?s ?nid fs (fs, stats)"
      using inv(1,2) by (simp add: int_inv_def)
    obtain st' e where w: "Walk integrity_cb d (fs, stats) = Some (st', e)" "int_inv ?s ?nid fs st'"
      "e = None \<Longrightarrow> verifier.settled (path_of d) st'"
      using verifier.Walk_result [OF start d(3,4)] by metis
    have e: "e = None"
      using Walk_no_error [OF snd_integrity_cb w(1)] .
    obtain fs' stats' where st': "st' = (fs', stats')" by fastforce
    show ?thesis
    proof (rule that)
      show "verifyIntegrity gc (fs, stats) = Some ((fs', stats'), None)"
        using run gc_pass_walk [of "(fs, stats)" d i] Some inv(1) ne w(1) e st' by simp
      show "store_inv ?s fs'"
        using w(2) st' by (intro store_inv_sub [OF assms(1)]) (simp_all add: int_inv_def)
      show "vault ?s fs' (n, h) = (if n = ?nid \<and> tainted ?s fs ?nid h then None else vault ?s fs (n, h))" for n h
        using w(2,3) e st' d(2)
        by (intro int_inv_vault [OF assms]) (auto simp: verifier.settled_def)
    qed
  qed
qed

section \<open>The orphan pass\<close>

text \<open>It removes nothing but directories, and only empty ones.\<close>

definition orphan_inv :: "fs \<Rightarrow> CleanupStats walk_st \<Rightarrow> bool" where
  "orphan_inv fs0 st \<longleftrightarrow> fs_wf (fst st) \<and> fs_sub (fst st) fs0 \<and>
     (\<forall>q b. fs_get fs0 q = Some (File b) \<longrightarrow> fs_get (fst st) q = Some (File b))"

lemma ReadDir_Dir:
  "os_ReadDir fs p = Inr es \<Longrightarrow>
   fs_get fs (path_of p) = Some Dir \<and> length es = length (children fs (path_of p))"
  by (auto simp: os_ReadDir_def dest!: os_Stat_Inr split: sum.splits inode.splits)

lemma Remove_Inr: "os_Remove fs p = Inr fs' \<Longrightarrow> fs' = fs_remove fs (path_of p)"
  by (simp add: os_Remove_def split: sum.splits inode.splits if_splits)

lemma orphan_cb_cases:
  assumes "orphan_cb nd p r st = (st', e)"
  obtains "fst st' = fst st"
  | "fs_get (fst st) (path_of p) = Some Dir" "children (fst st) (path_of p) = []"
    "fst st' = fs_remove (fst st) (path_of p)"
proof (cases "fst st' = fst st")
  case False
  then obtain es where es: "os_ReadDir (fst st) p = Inr es" "length es = 0"
    and rm: "os_Remove (fst st) p = Inr (fst st')"
    using assms by (auto simp: orphan_cb_def split: sum.splits inode.splits if_splits)
  from ReadDir_Dir [OF es(1)] Remove_Inr [OF rm] es(2) that(2) show ?thesis
    by simp
qed (rule that(1))

lemma remove_empty_dir:
  assumes "fs_wf fs" and "children fs p = []" and "fs_get fs p = Some Dir" and "\<not> is_root p"
  shows "fs_get (fs_remove fs p) q = (if q = p then None else fs_get fs q)"
proof -
  have "fs_get fs (p @ x # r) = None" for x r
  proof (rule ccontr)
    assume "fs_get fs (p @ x # r) \<noteq> None"
    then obtain i where i: "fs_get fs (p @ x # r) = Some i" by blast
    have nr: "\<not> is_root (p @ [x])"
      using assms(4) is_root_butlast [of "p @ [x]"] by auto
    have "fs_get fs (p @ [x]) \<noteq> None"
      using fs_wf_prefix [OF assms(1), of "p @ [x]" r] i by (cases r) auto
    with fs_wf_comp [OF assms(1) i nr] have "x \<in> set (children fs p)"
      by (simp add: children_iff [OF assms(1)])
    with assms(2) show False by simp
  qed
  then have "fs_get fs q = None" if "below p q" "q \<noteq> p" for q
  proof -
    from that obtain r where "q = p @ r" "r \<noteq> []"
      by (auto simp: below_iff)
    then show ?thesis
      using \<open>\<And>x r. fs_get fs (p @ x # r) = None\<close> by (cases r) simp_all
  qed
  moreover have "\<not> is_root q" if "below p q"
    using that assms(4) by (auto simp: below_iff is_root_def append_eq_Cons_conv)
  ultimately show ?thesis
    by (auto simp: fs_get_remove)
qed

interpretation sweeper: walker "orphan_cb nd" "orphan_inv fs0" "\<lambda>_ _. True"
  "\<lambda>p. p \<noteq> [] \<and> \<not> is_root (path_of p)" for nd fs0
proof
  fix p x st r st' e
  show "p \<noteq> [] \<and> \<not> is_root (path_of p) \<Longrightarrow> norm_comp x \<Longrightarrow>
      Join [p, x] \<noteq> [] \<and> \<not> is_root (path_of (Join [p, x]))"
    by (simp add: Join_not_Nil path_of_Join2 norm_not_root)
  assume inv: "orphan_inv fs0 st" and vis: "p \<noteq> [] \<and> \<not> is_root (path_of p)"
    and cb: "orphan_cb nd p r st = (st', e)"
  then have wf: "fs_wf (fst st)" and sub: "fs_sub (fst st) fs0"
    by (simp_all add: orphan_inv_def)
  show "orphan_inv fs0 st'"
  proof (cases rule: orphan_cb_cases [OF cb])
    case 1
    with inv show ?thesis by (simp add: orphan_inv_def)
  next
    case 2
    note get = remove_empty_dir [OF wf 2(2,1)]
    have "fs_sub (fs_remove (fst st) (path_of p)) fs0"
      using fs_sub_trans [OF fs_sub_remove sub] .
    moreover have "fs_get fs0 (path_of p) = Some Dir"
      using fs_sub_get [OF sub 2(1)] .
    ultimately show ?thesis
      using inv 2(3) vis wf by (auto simp: orphan_inv_def fs_wf_remove get)
  qed
  show "fs_sub (fst st') (fst st)"
    by (cases rule: orphan_cb_cases [OF cb]) simp_all
qed (simp_all add: orphan_inv_def)

lemma snd_orphan_cb: "snd (orphan_cb nd p r st) = None"
  by (auto simp: orphan_cb_def split: sum.splits inode.splits)

lemma cleanOrphanedFiles_vault:
  assumes "store_inv (gc_store gc) (fst st)" and "valid_id (gc_nodeID gc)"
  obtains st' where "cleanOrphanedFiles gc st = Some (st', None)"
    and "store_inv (gc_store gc) (fst st')" and "vault (gc_store gc) (fst st') = vault (gc_store gc) (fst st)"
    and "fs_sub (fst st') (fst st)"
    and "\<And>q b. fs_get (fst st) q = Some (File b) \<Longrightarrow> fs_get (fst st') q = Some (File b)"
proof -
  let ?s = "gc_store gc" and ?nid = "gc_nodeID gc"
  note inv = store_inv_D [OF assms(1)]
  obtain d where d: "resolvePath ?s ?nid [] = Inr d" "path_of d = node_path ?s ?nid"
    "node_vis ?s ?nid d" "\<not> is_root (path_of d)"
    using node_dir [OF inv(2) assms(2)] .
  have ne: "d \<noteq> []"
    using d(3) by (simp add: node_vis_def)
  have run: "cleanOrphanedFiles gc st = gc_pass (orphan_cb d) d st"
    by (simp add: cleanOrphanedFiles_def d(1))
  show ?thesis
  proof (cases "fs_get (fst st) (path_of d)")
    case None
    with gc_pass_missing(1) [OF assms d(2) ne] assms(1) d(2) run show ?thesis
      by (intro that [of st]) simp_all
  next
    case (Some i)
    have start: "orphan_inv (fst st) st"
      using inv(1) by (simp add: orphan_inv_def)
    obtain st' e where w: "Walk (orphan_cb d) d st = Some (st', e)" "orphan_inv (fst st) st'"
      using sweeper.Walk_result [OF start _ d(4)] ne d(4) by metis
    have files: "fs_get (fst st) q = Some (File b) \<Longrightarrow> fs_get (fst st') q = Some (File b)"
      and sub: "fs_sub (fst st') (fst st)" and wf: "fs_wf (fst st')" for q b
      using w(2) by (simp_all add: orphan_inv_def)
    have "vault ?s (fst st') (n, h) = Some b \<longleftrightarrow> vault ?s (fst st) (n, h) = Some b" for n h b
      unfolding vault_get using files fs_sub_get [OF sub] by blast
    then have "vault ?s (fst st') a = Some b \<longleftrightarrow> vault ?s (fst st) a = Some b" for a b
      by (metis surj_pair)
    then have "vault ?s (fst st') a = vault ?s (fst st) a" for a
      by (metis option.exhaust)
    then have "vault ?s (fst st') = vault ?s (fst st)"
      by (rule ext)
    moreover have "cleanOrphanedFiles gc st = Some (st', None)"
      using run gc_pass_walk [OF inv(1) ne Some] Walk_no_error [OF snd_orphan_cb w(1)] w(1) by simp
    ultimately show ?thesis
      using that [of st'] store_inv_sub [OF assms(1) wf sub] sub files by blast
  qed
qed

section \<open>A whole cleanup\<close>

lemma performCleanup_vault:
  assumes "store_inv (gc_store gc) fs" and "valid_id (gc_nodeID gc)"
  obtains fs' stats where "performCleanup gc fs = Some (fs', stats)" and "store_inv (gc_store gc) fs'"
    and "\<And>n h. vault (gc_store gc) fs' (n, h) =
      (if integrityEnabled gc \<and> n = gc_nodeID gc \<and> tainted (gc_store gc) fs (gc_nodeID gc) h then None
       else vault (gc_store gc) fs (n, h))"
proof -
  let ?zero = "\<lparr>CorruptedFiles = 0, OrphanedFiles = 0, RemovedFiles = 0\<rparr>"
  obtain fs1 st1 where st1: "(if integrityEnabled gc then map_option fst (verifyIntegrity gc (fs, ?zero))
        else Some (fs, ?zero)) = Some (fs1, st1)"
    and inv1: "store_inv (gc_store gc) fs1"
    and v1: "\<And>n h. vault (gc_store gc) fs1 (n, h) =
      (if integrityEnabled gc \<and> n = gc_nodeID gc \<and> tainted (gc_store gc) fs (gc_nodeID gc) h then None
       else vault (gc_store gc) fs (n, h))"
  proof (cases "integrityEnabled gc")
    case True
    obtain fs1 st1 where "verifyIntegrity gc (fs, ?zero) = Some ((fs1, st1), None)"
      "store_inv (gc_store gc) fs1"
      "\<And>n h. vault (gc_store gc) fs1 (n, h) =
        (if n = gc_nodeID gc \<and> tainted (gc_store gc) fs (gc_nodeID gc) h then None
         else vault (gc_store gc) fs (n, h))"
      using verifyIntegrity_vault [OF assms] by blast
    with True show ?thesis by (intro that [of fs1 st1]) simp_all
  next
    case False
    with assms(1) show ?thesis by (intro that [of fs ?zero]) simp_all
  qed
  obtain st' where "cleanOrphanedFiles gc (fs1, st1) = Some (st', None)"
    "store_inv (gc_store gc) (fst st')" "vault (gc_store gc) (fst st') = vault (gc_store gc) fs1"
    using cleanOrphanedFiles_vault [of gc "(fs1, st1)"] inv1 assms(2) by (metis fst_conv)
  with st1 v1 show ?thesis
    by (intro that [of "fst st'" "snd st'"]) (simp_all add: performCleanup_def)
qed

lemma performCleanup_cases:
  assumes "store_inv (gc_store gc) fs" and "ValidateNodeID (gc_nodeID gc) = Inr ()"
  shows "\<exists>fs' stats. performCleanup gc fs = Some (fs', stats) \<and> store_inv (gc_store gc) fs' \<and>
    (\<forall>n h. vault (gc_store gc) fs' (n, h) =
      (if integrityEnabled gc \<and> n = gc_nodeID gc \<and> tainted (gc_store gc) fs (gc_nodeID gc) h then None
       else vault (gc_store gc) fs (n, h)))"
  by (rule performCleanup_vault [OF assms]) (intro exI conjI allI, assumption+)

lemma gc_run_spec:
  assumes "valid_id (gc_nodeID gc)"
  shows "store_inv (gc_store gc) fs \<Longrightarrow>
    \<exists>fs'. gc_run gc es fs = Some (fs', CtxDone \<notin> set es \<and> StopChan \<notin> set es) \<and> store_inv (gc_store gc) fs' \<and>
      (\<forall>n h. n \<noteq> gc_nodeID gc \<longrightarrow> vault (gc_store gc) fs' (n, h) = vault (gc_store gc) fs (n, h))"
proof (induction es arbitrary: fs)
  case (Cons e es)
  obtain fs1 stats where 1: "performCleanup gc fs = Some (fs1, stats)" "store_inv (gc_store gc) fs1"
    "\<forall>n h. vault (gc_store gc) fs1 (n, h) =
      (if integrityEnabled gc \<and> n = gc_nodeID gc \<and> tainted (gc_store gc) fs (gc_nodeID gc) h then None
       else vault (gc_store gc) fs (n, h))"
    using performCleanup_cases [OF Cons.prems assms] by blast
  show ?case
    using Cons.IH [OF 1(2)] Cons.prems 1 by (cases e) simp_all
qed simp

end
