(* ===== verification/P2P.thy ===== *)
theory P2P
  imports GoIO GoStrings
begin

text \<open>
  \<open>pkg/p2p\<close>: messages, the default decoder, peers, dialling with retries, and the read loop of a
  connection as a transition system shared with the consumer of the RPC channel.  A connection is the
  reader of what arrives until it is closed and the writer of what is sent.
\<close>

section \<open>Messages and the decoder\<close>

definition IncomingMessage :: byte where
  "IncomingMessage = 0x1"

definition IncomingStream :: byte where
  "IncomingStream = 0x2"

record RPC =
  rpc_From :: string
  rpc_Payload :: bytes
  rpc_Stream :: bool

definition empty_rpc :: RPC where
  "empty_rpc = \<lparr>rpc_From = [], rpc_Payload = [], rpc_Stream = False\<rparr>"

text \<open>
  \<open>DefaultDecoder.Decode\<close>.  A failed read of the first byte returns no error; a read of zero bytes
  without an error leaves the byte zero.
\<close>

definition Decode :: "reader \<Rightarrow> RPC \<Rightarrow> RPC result \<times> reader" where
  "Decode r msg =
     (case rd_read 1 r of (b, s, r1) \<Rightarrow>
      if s \<noteq> ROk then (Inr msg, r1)
      else let peek = (case b of [] \<Rightarrow> 0 | x # _ \<Rightarrow> x)
           in if peek = IncomingStream then (Inr (msg\<lparr>rpc_Stream := True\<rparr>), r1)
              else case rd_read 1028 r1 of (buf, s', r2) \<Rightarrow>
                (case s' of
                   ROk \<Rightarrow> (Inr (msg\<lparr>rpc_Payload := buf\<rparr>), r2)
                 | REof \<Rightarrow> (Inl IoEOF, r2)
                 | RErr e \<Rightarrow> (Inl e, r2)))"

text \<open>\<open>GOBDecoder.Decode\<close> hands the connection to \<open>encoding/gob\<close>, a parameter; nothing uses it.\<close>

definition GOBDecoder_Decode :: "(reader \<Rightarrow> RPC \<Rightarrow> RPC result \<times> reader) \<Rightarrow> reader \<Rightarrow> RPC \<Rightarrow> RPC result \<times> reader" where
  "GOBDecoder_Decode gob_decode r msg = gob_decode r msg"

section \<open>Peers\<close>

record TCPPeer =
  RemoteAddr :: string
  peer_in :: reader
  peer_out :: writer
  outbound :: bool
  peer_wg :: nat

definition NewTCPPeer :: "string \<Rightarrow> reader \<Rightarrow> writer \<Rightarrow> bool \<Rightarrow> TCPPeer" where
  "NewTCPPeer addr inp out ob =
     \<lparr>RemoteAddr = addr, peer_in = inp, peer_out = out, outbound = ob, peer_wg = 0\<rparr>"

text \<open>\<open>WaitGroup.Done\<close> below zero panics.\<close>

definition CloseStream :: "TCPPeer \<Rightarrow> TCPPeer go" where
  "CloseStream p =
     (if peer_wg p = 0 then Panic ''sync: negative WaitGroup counter''
      else Return (p\<lparr>peer_wg := peer_wg p - 1\<rparr>))"

definition Send :: "TCPPeer \<Rightarrow> bytes \<Rightarrow> TCPPeer \<times> error option" where
  "Send p B =
     (case wr_write (peer_out p) B of
        (w, Inl e) \<Rightarrow> (p\<lparr>peer_out := w\<rparr>, Some e)
      | (w, Inr _) \<Rightarrow> (p\<lparr>peer_out := w\<rparr>, None))"

section \<open>The transport\<close>

record TCPTransportOpts =
  ListenAddr :: string
  DialTimeout :: int
  MaxRetries :: int
  RetryDelay :: int

datatype net_listener = NoListener | Listening | ListenerClosed

record TCPTransport = TCPTransportOpts +
  listener :: net_listener

definition NewTCPTransport :: "TCPTransportOpts \<Rightarrow> TCPTransport" where
  "NewTCPTransport opts =
     \<lparr>ListenAddr = ListenAddr opts, DialTimeout = DialTimeout opts, MaxRetries = MaxRetries opts,
      RetryDelay = RetryDelay opts, listener = NoListener\<rparr>"

text \<open>Closing before a listener was made dereferences a nil interface.\<close>

definition transport_Close :: "TCPTransport \<Rightarrow> (TCPTransport \<times> error option) go" where
  "transport_Close t =
     (case listener t of
        NoListener \<Rightarrow> Panic ''invalid memory address or nil pointer dereference''
      | Listening \<Rightarrow> Return (t\<lparr>listener := ListenerClosed\<rparr>, None)
      | ListenerClosed \<Rightarrow> Return (t, Some (Errorf ''use of closed network connection'' [])))"

text \<open>The outcome of \<open>net.Listen\<close> is a parameter; the accept loop it begins is in the theory of the server.\<close>

definition ListenAndAccept :: "(string \<Rightarrow> error option) \<Rightarrow> TCPTransport \<Rightarrow> TCPTransport \<times> error option" where
  "ListenAndAccept net_listen t =
     (case net_listen (ListenAddr t) of
        Some e \<Rightarrow> (t\<lparr>listener := NoListener\<rparr>, Some e)
      | None \<Rightarrow> (t\<lparr>listener := Listening\<rparr>, None))"

definition Addr :: "TCPTransport \<Rightarrow> string" where
  "Addr t = ListenAddr t"

text \<open>
  \<open>Dial\<close>: \<open>dial k\<close> is the outcome of the \<open>k\<close>-th \<open>net.DialTimeout\<close>.  The result says which attempt
  succeeded, or the error; \<open>err\<close> is its value in the source, nil before the first attempt.
\<close>

function dial_loop :: "(int \<Rightarrow> error option) \<Rightarrow> int \<Rightarrow> int \<Rightarrow> error option \<Rightarrow> error option + int" where
  "dial_loop dial maxRetries attempt err =
     (if maxRetries < attempt then Inl err
      else case dial attempt of
             None \<Rightarrow> Inr attempt
           | Some e \<Rightarrow> dial_loop dial maxRetries (attempt + 1) (Some e))"
  by pat_completeness auto
termination
  by (relation "measure (\<lambda>(_, m, a, _). nat (m + 1 - a))") auto

declare dial_loop.simps [simp del]

definition max_retries :: "TCPTransport \<Rightarrow> int" where
  "max_retries t = (if MaxRetries t = 0 then 3 else MaxRetries t)"

definition Dial :: "TCPTransport \<Rightarrow> (int \<Rightarrow> error option) \<Rightarrow> string \<Rightarrow> int result" where
  "Dial t dial addr =
     (case dial_loop dial (max_retries t) 1 None of
        Inr attempt \<Rightarrow> Inr attempt
      | Inl (Some e) \<Rightarrow> Inl (Wrap ''failed to connect to %s after %d attempts: %w'' e)
      | Inl None \<Rightarrow> Inl (Errorf ''failed to connect to %s after %d attempts: %!w(<nil>)''
                          [addr, Itoa (max_retries t)]))"

text \<open>The handshake the program uses accepts every peer.\<close>

definition NOPHandshakeFunc :: "TCPPeer \<Rightarrow> error option" where
  "NOPHandshakeFunc p = None"

section \<open>The read loop of a connection\<close>

datatype phase = Reading | Waiting | Closed

record conn =
  c_peer :: TCPPeer
  c_phase :: phase
  c_queue :: "RPC list"

definition rpcch_cap :: nat where
  "rpcch_cap = 1024"

text \<open>One iteration: decode, stamp the sender, and hand the message over; a stream makes it wait.\<close>

definition read_one :: "TCPPeer \<Rightarrow> RPC result \<times> TCPPeer" where
  "read_one p =
     (case Decode (peer_in p) empty_rpc of
        (Inl e, r) \<Rightarrow> (Inl e, p\<lparr>peer_in := r\<rparr>)
      | (Inr rpc, r) \<Rightarrow>
          (Inr (rpc\<lparr>rpc_From := RemoteAddr p\<rparr>),
           p\<lparr>peer_in := r, peer_wg := peer_wg p + (if rpc_Stream rpc then 1 else 0)\<rparr>))"

datatype conn_label = Pushed RPC | Resumed | Failed error | Consumed RPC | Handled reader

text \<open>
  Steps of the read loop (\<open>Pushed\<close>, \<open>Resumed\<close>, \<open>Failed\<close>) and of the server that takes messages from
  the channel (\<open>Consumed\<close>) and, for a stream, reads from the connection and then closes the stream
  (\<open>Handled\<close>).
\<close>

inductive conn_step :: "conn \<Rightarrow> conn_label \<Rightarrow> conn \<Rightarrow> bool" where
  push: "c_phase c = Reading \<Longrightarrow> length (c_queue c) < rpcch_cap \<Longrightarrow> read_one (c_peer c) = (Inr rpc, p) \<Longrightarrow>
    conn_step c (Pushed rpc)
      (c\<lparr>c_peer := p, c_phase := (if rpc_Stream rpc then Waiting else Reading),
         c_queue := c_queue c @ [rpc]\<rparr>)"
| fail: "c_phase c = Reading \<Longrightarrow> read_one (c_peer c) = (Inl e, p) \<Longrightarrow>
    conn_step c (Failed e) (c\<lparr>c_peer := p, c_phase := Closed\<rparr>)"
| resume: "c_phase c = Waiting \<Longrightarrow> peer_wg (c_peer c) = 0 \<Longrightarrow>
    conn_step c Resumed (c\<lparr>c_phase := Reading\<rparr>)"
| consume: "c_queue c = rpc # q \<Longrightarrow> conn_step c (Consumed rpc) (c\<lparr>c_queue := q\<rparr>)"
| handled: "CloseStream (c_peer c) = Return p \<Longrightarrow>
    conn_step c (Handled r) (c\<lparr>c_peer := p\<lparr>peer_in := r\<rparr>\<rparr>)"

inductive_cases conn_stepE: "conn_step c l c'"

section \<open>Decoding\<close>

text \<open>A message that arrives in one piece is delivered as it was sent, whatever follows it.\<close>

lemma Decode_message:
  assumes "length p \<le> 1028" and "p \<noteq> []"
  shows "Decode ((IncomingMessage # p, ROk) # r) msg = (Inr (msg\<lparr>rpc_Payload := p\<rparr>), r)"
  using assms by (cases p) (auto simp: Decode_def IncomingMessage_def IncomingStream_def)

lemma Decode_two_chunks:
  assumes "length p \<le> 1028"
  shows "Decode (([IncomingMessage], ROk) # (p, ROk) # r) msg = (Inr (msg\<lparr>rpc_Payload := p\<rparr>), r)"
  using assms by (simp add: Decode_def IncomingMessage_def IncomingStream_def)

lemma Decode_stream:
  "Decode ((IncomingStream # p, ROk) # r) msg =
     (Inr (msg\<lparr>rpc_Stream := True\<rparr>), if p = [] then r else (p, ROk) # r)"
  by (simp add: Decode_def)

lemma read_one_message:
  assumes "length buf \<le> 1028" and "buf \<noteq> []"
  shows "read_one (q\<lparr>peer_in := [(IncomingMessage # buf, ROk)]\<rparr>) =
    (Inr \<lparr>rpc_From = RemoteAddr q, rpc_Payload = buf, rpc_Stream = False\<rparr>, q\<lparr>peer_in := []\<rparr>)"
  using Decode_message [OF assms, of "[]" empty_rpc] by (simp add: read_one_def empty_rpc_def)

text \<open>A longer message is cut: the rest is read as the next message.\<close>

lemma Decode_cut:
  assumes "1028 < length p"
  shows "Decode ((IncomingMessage # p, ROk) # r) msg =
    (Inr (msg\<lparr>rpc_Payload := take 1028 p\<rparr>), (drop 1028 p, ROk) # r)"
  using assms by (cases p) (auto simp: Decode_def IncomingMessage_def IncomingStream_def)

lemma Decode_closed: "Decode [] msg = (Inr msg, [])"
  by (simp add: Decode_def)

section \<open>Dialling\<close>

lemma dial_loop_ok:
  "dial_loop dial m a err = Inr k \<longleftrightarrow>
     a \<le> k \<and> k \<le> m \<and> dial k = None \<and> (\<forall>j \<in> {a..<k}. dial j \<noteq> None)"
proof (induction dial m a err rule: dial_loop.induct)
  case (1 dial m a err)
  consider "m < a" | "\<not> m < a" "dial a = None" | e where "\<not> m < a" "dial a = Some e"
    by (cases "dial a") blast+
  then show ?case
  proof cases
    case 1
    then show ?thesis by (auto simp: dial_loop.simps [of dial m a])
  next
    case 2
    have "k = a" if "a \<le> k" "\<forall>j \<in> {a..<k}. dial j \<noteq> None"
      using that 2(2) by (metis atLeastLessThan_iff order_le_less order_refl)
    with 2 show ?thesis by (auto simp: dial_loop.simps [of dial m a])
  next
    case (3 e)
    have "{a..<k} = insert a {a + 1..<k}" if "a + 1 \<le> k"
      using that by auto
    moreover have "a \<le> k \<and> dial k = None \<longleftrightarrow> a + 1 \<le> k \<and> dial k = None"
      using 3(2) by (metis add1_zle_eq option.discI order_le_less zless_add1_eq)
    ultimately show ?thesis
      using "1.IH" [OF 3] 3 by (auto simp: dial_loop.simps [of dial m a])
  qed
qed

lemma dial_loop_err:
  "dial_loop dial m a err = Inl e \<longleftrightarrow>
     (\<forall>j \<in> {a..m}. dial j \<noteq> None) \<and> e = (if m < a then err else dial m)"
proof (induction dial m a err rule: dial_loop.induct)
  case (1 dial m a err)
  consider "m < a" | "\<not> m < a" "dial a = None" | e where "\<not> m < a" "dial a = Some e"
    by (cases "dial a") blast+
  then show ?case
  proof cases
    case (3 e')
    then have "{a..m} = insert a {a + 1..m}"
      by auto
    moreover have "m < a + 1 \<Longrightarrow> m = a"
      using 3(1) by simp
    ultimately show ?thesis
      using "1.IH" [OF 3] 3 by (auto simp: dial_loop.simps [of dial m a])
  qed (auto simp: dial_loop.simps [of dial m a])
qed

section \<open>The loop as a transition system\<close>

definition conn_init :: "conn \<Rightarrow> bool" where
  "conn_init c \<longleftrightarrow> c_phase c = Reading \<and> c_queue c = [] \<and> peer_wg (c_peer c) = 0"

definition conn_inv :: "conn \<Rightarrow> bool" where
  "conn_inv c \<longleftrightarrow> length (c_queue c) \<le> rpcch_cap \<and> peer_wg (c_peer c) \<le> 1 \<and>
     (c_phase c \<noteq> Waiting \<longrightarrow> peer_wg (c_peer c) = 0)"

lemma read_one_wg:
  "read_one p = (Inr rpc, p') \<Longrightarrow> peer_wg p' = peer_wg p + (if rpc_Stream rpc then 1 else 0)"
  "read_one p = (Inl e, p') \<Longrightarrow> peer_wg p' = peer_wg p"
  by (auto simp: read_one_def split: prod.splits sum.splits)

interpretation conns: machine conn_init conn_step conn_inv
proof
  fix s l t
  show "conn_init s \<Longrightarrow> conn_inv s"
    by (simp add: conn_init_def conn_inv_def)
  assume "conn_inv s" and "conn_step s l t"
  then show "conn_inv t"
    by (elim conn_stepE)
      (auto simp: conn_inv_def CloseStream_def read_one_wg split: if_splits)
qed

text \<open>
  A connection whose peer has closed it (nothing more to read) never ends the loop: the failed read
  is reported as an empty message, again and again.
\<close>

lemma closed_never_fails:
  assumes "conn_step c l c'" and "peer_in (c_peer c) = []" and "c_phase c = Reading"
    and "\<And>r. l \<noteq> Handled r"
  shows "c_phase c' = Reading \<and> peer_in (c_peer c') = [] \<and>
    (\<forall>rpc. l = Pushed rpc \<longrightarrow> rpc = empty_rpc\<lparr>rpc_From := RemoteAddr (c_peer c)\<rparr>)"
  using assms by (auto elim!: conn_stepE simp: read_one_def Decode_closed empty_rpc_def)

lemma closed_pushes:
  assumes "peer_in (c_peer c) = []" and "c_phase c = Reading" and "length (c_queue c) < rpcch_cap"
  shows "\<exists>c'. conn_step c (Pushed (empty_rpc\<lparr>rpc_From := RemoteAddr (c_peer c)\<rparr>)) c'"
proof -
  have "read_one (c_peer c) = (Inr (empty_rpc\<lparr>rpc_From := RemoteAddr (c_peer c)\<rparr>), c_peer c)"
    using assms(1) by (simp add: read_one_def Decode_closed empty_rpc_def)
  from conn_step.push [OF assms(2,3) this] show ?thesis by blast
qed

end
