(* ===== verification/Quota.thy ===== *)
theory Quota
  imports StoreFacts Metrics
begin

text \<open>
  \<open>internal/quota/quota.go\<close>: the storage quota of a node: its configuration file, the usage of a
  directory tree, the admission check, parsing of human-readable sizes and the interactive choice of
  files to delete.  Lines typed by the user are arguments; what is printed is not modelled, except that
  printing a size may panic.
\<close>

section \<open>Numbers in text\<close>

text \<open>\<open>strconv.ParseFloat\<close> on a string of digits and dots.\<close>

definition ParseFloat :: "string \<Rightarrow> rat result" where
  "ParseFloat s =
     (case split (CHR ''.'') s of
        [a] \<Rightarrow> if a = [] then Inl SyntaxError else Inr (f64 (of_int (digits_val a)))
      | [a, b] \<Rightarrow> if a = [] \<and> b = [] then Inl SyntaxError
                 else Inr (f64 (of_int (digits_val (a @ b)) / 10 ^ length b))
      | _ \<Rightarrow> Inl SyntaxError)"

text \<open>A number too large for a double is a range error.\<close>

definition max_float :: rat where
  "max_float = 2 ^ 1024 - 2 ^ 970"

definition ParseFloat_ranged :: "string \<Rightarrow> rat result" where
  "ParseFloat_ranged s =
     (case ParseFloat s of Inl e \<Rightarrow> Inl e | Inr x \<Rightarrow> if max_float \<le> x then Inl SyntaxError else Inr x)"

text \<open>\<open>strconv.Atoi\<close>.\<close>

definition Atoi :: "string \<Rightarrow> int option" where
  "Atoi s =
     (let (neg, d) = (case s of
            [] \<Rightarrow> (False, [])
          | c # cs \<Rightarrow> if c = CHR ''-'' then (True, cs) else if c = CHR ''+'' then (False, cs) else (False, s));
          v = (if neg then - digits_val d else digits_val d)
      in if d = [] \<or> \<not> list_all is_digit d then None
         else if - (2 ^ 63) \<le> v \<and> v < 2 ^ 63 then Some v else None)"

section \<open>Sizes\<close>

definition size_unit :: "string \<Rightarrow> int option" where
  "size_unit u =
     (if u = ''B'' \<or> u = ''BYTES'' then Some 1
      else if u = ''KB'' \<or> u = ''K'' then Some 1024
      else if u = ''MB'' \<or> u = ''M'' then Some (1024 * 1024)
      else if u = ''GB'' \<or> u = ''G'' then Some (1024 * 1024 * 1024)
      else if u = ''TB'' \<or> u = ''T'' then Some (1024 * 1024 * 1024 * 1024)
      else None)"

definition num_char :: "char \<Rightarrow> bool" where
  "num_char c \<longleftrightarrow> is_digit c \<or> c = CHR ''.''"

definition ParseStorageSize :: "string \<Rightarrow> int result" where
  "ParseStorageSize input =
     (let inp = ToUpper (TrimSpace input);
          numStr = takeWhile num_char inp;
          unit = dropWhile num_char inp
      in if numStr = [] then Inl (Errorf ''no number found'' [])
         else case ParseFloat_ranged numStr of
                Inl e \<Rightarrow> Inl (Wrap ''invalid number: %w'' e)
              | Inr num \<Rightarrow>
                 (case size_unit (TrimSpace unit) of
                    None \<Rightarrow> Inl (Errorf ''unknown unit: %s (use B, KB, MB, GB, or TB)'' [TrimSpace unit])
                  | Some multiplier \<Rightarrow> Inr (trunc64 (f64 (num * f64 (of_int multiplier))))))"

section \<open>The quota manager\<close>

record QuotaConfig =
  MaxStorageBytes :: int
  StorageRoot :: string

record QuotaManager =
  qm_storageRoot :: string
  configPath :: string
  config :: QuotaConfig

record qjson =
  MarshalQuota :: "QuotaConfig \<Rightarrow> bytes"
  UnmarshalQuota :: "bytes \<Rightarrow> QuotaConfig \<Rightarrow> QuotaConfig \<times> error option"

definition NewQuotaManager :: "string \<Rightarrow> QuotaManager" where
  "NewQuotaManager storageRoot =
     \<lparr>qm_storageRoot = storageRoot, configPath = Join [storageRoot, ''quota.json''],
      config = \<lparr>MaxStorageBytes = 10 * 1024 * 1024 * 1024, StorageRoot = []\<rparr>\<rparr>"

definition quota_load :: "qjson \<Rightarrow> QuotaManager \<Rightarrow> fs \<Rightarrow> QuotaManager \<times> error option" where
  "quota_load J qm fs =
     (case os_ReadFile fs (configPath qm) of
        Inl e \<Rightarrow> (qm, Some (Wrap ''failed to read quota config: %w'' e))
      | Inr data \<Rightarrow>
         (case UnmarshalQuota J data (config qm) of
            (c, None) \<Rightarrow> (qm\<lparr>config := c\<rparr>, None)
          | (c, Some e) \<Rightarrow> (qm\<lparr>config := c\<rparr>, Some (Wrap ''failed to parse quota config: %w'' e))))"

definition quota_Save :: "qjson \<Rightarrow> QuotaManager \<Rightarrow> fs \<Rightarrow> fs \<times> error option" where
  "quota_Save J qm fs =
     (case os_MkdirAll fs (Dir_of (configPath qm)) of
        Inl e \<Rightarrow> (fs, Some (Wrap ''failed to create config directory: %w'' e))
      | Inr fs1 \<Rightarrow>
         (case os_WriteFile fs1 (configPath qm) (MarshalQuota J (config qm)) of
            Inl e \<Rightarrow> (fs1, Some (Wrap ''failed to write quota config: %w'' e))
          | Inr fs2 \<Rightarrow> (fs2, None)))"

text \<open>The prompt loop: an invalid size is asked for again; the size is echoed, which may panic.\<close>

fun ask_size :: "string list \<Rightarrow> int result go" where
  "ask_size [] = Return (Inl (Errorf ''failed to read input'' []))"
| "ask_size (line # ls) =
     (case ParseStorageSize (TrimSpace line) of
        Inl _ \<Rightarrow> ask_size ls
      | Inr n \<Rightarrow> (case FormatBytes n of Panic x \<Rightarrow> Panic x | Return _ \<Rightarrow> Return (Inr n)))"

definition LoadOrCreate ::
    "qjson \<Rightarrow> QuotaManager \<Rightarrow> fs \<Rightarrow> string list \<Rightarrow> (QuotaManager \<times> fs \<times> error option) go" where
  "LoadOrCreate J qm fs input =
     (case os_Stat fs (configPath qm) of
        Inr _ \<Rightarrow> (case quota_load J qm fs of (qm', e) \<Rightarrow> Return (qm', fs, e))
      | Inl _ \<Rightarrow>
         (case ask_size input of
            Panic x \<Rightarrow> Panic x
          | Return (Inl e) \<Rightarrow> Return (qm, fs, Some e)
          | Return (Inr n) \<Rightarrow>
             (let qm' = qm\<lparr>config := (config qm)\<lparr>MaxStorageBytes := n\<rparr>\<rparr>
              in case quota_Save J qm' fs of (fs', e) \<Rightarrow> Return (qm', fs', e))))"

definition GetMaxStorage :: "QuotaManager \<Rightarrow> int" where
  "GetMaxStorage qm = MaxStorageBytes (config qm)"

definition SetMaxStorage :: "QuotaManager \<Rightarrow> int \<Rightarrow> QuotaManager" where
  "SetMaxStorage qm n = qm\<lparr>config := (config qm)\<lparr>MaxStorageBytes := n\<rparr>\<rparr>"

definition SetStorageRoot :: "QuotaManager \<Rightarrow> string \<Rightarrow> QuotaManager" where
  "SetStorageRoot qm rt = qm\<lparr>config := (config qm)\<lparr>StorageRoot := rt\<rparr>\<rparr>"

section \<open>Usage\<close>

definition usage_add :: "string \<Rightarrow> inode \<Rightarrow> int \<Rightarrow> int" where
  "usage_add p i n = (case i of Dir \<Rightarrow> n | File b \<Rightarrow> i64 (n + int (length b)))"

definition usage_cb :: "int walk_fn" where
  "usage_cb p r st = (case r of Inl _ \<Rightarrow> (st, None) | Inr i \<Rightarrow> ((fst st, usage_add p i (snd st)), None))"

definition GetCurrentUsage :: "fs \<Rightarrow> string \<Rightarrow> int result option" where
  "GetCurrentUsage fs rt =
     (case Walk usage_cb rt (fs, 0) of
        None \<Rightarrow> None
      | Some (st, None) \<Rightarrow> Some (Inr (snd st))
      | Some (st, Some e) \<Rightarrow> Some (Inl (Wrap ''failed to calculate storage usage: %w'' e)))"

definition CheckQuota :: "QuotaManager \<Rightarrow> fs \<Rightarrow> string \<Rightarrow> int \<Rightarrow> (bool \<times> int) result option" where
  "CheckQuota qm fs rt newFileSize =
     (case GetCurrentUsage fs rt of
        None \<Rightarrow> None
      | Some (Inl e) \<Rightarrow> Some (Inl e)
      | Some (Inr currentUsage) \<Rightarrow>
         (let availableSpace = (if currentUsage < MaxStorageBytes (config qm)
                                then i64 (MaxStorageBytes (config qm) - currentUsage) else 0)
          in Some (Inr (newFileSize \<le> availableSpace, availableSpace))))"

definition GetStorageStats :: "QuotaManager \<Rightarrow> fs \<Rightarrow> string \<Rightarrow> (int \<times> int \<times> int) result option" where
  "GetStorageStats qm fs rt =
     (case GetCurrentUsage fs rt of
        None \<Rightarrow> None
      | Some (Inl e) \<Rightarrow> Some (Inl e)
      | Some (Inr used) \<Rightarrow>
         (let tot = MaxStorageBytes (config qm); available = i64 (tot - used)
          in Some (Inr (used, tot, if available < 0 then 0 else available))))"

section \<open>Choosing files to delete\<close>

text \<open>The numbers typed, in order; invalid ones are skipped.\<close>

fun pick_files :: "FileInfo list \<Rightarrow> string list \<Rightarrow> string list \<times> int" where
  "pick_files files [] = ([], 0)"
| "pick_files files (part # ps) =
     (case pick_files files ps of (ks, freed) \<Rightarrow>
      case Atoi (TrimSpace part) of
        None \<Rightarrow> (ks, freed)
      | Some num \<Rightarrow>
          if num < 1 \<or> num > int (length files) then (ks, freed)
          else let f = files ! nat (num - 1)
               in (fi_Key f # ks, i64 (freed + int (fi_Size f))))"

definition prints :: "int list \<Rightarrow> bool" where
  "prints ns \<longleftrightarrow> list_all (\<lambda>n. FormatBytes n \<noteq> Panic ''index out of range'') ns"

definition PromptDeleteFiles ::
    "store \<Rightarrow> fs \<Rightarrow> string \<Rightarrow> int \<Rightarrow> string list \<Rightarrow> string list result go option" where
  "PromptDeleteFiles s fs nid requiredSpace input =
     (case store_List s fs nid of
        None \<Rightarrow> None
      | Some (Panic x, _) \<Rightarrow> Some (Panic x)
      | Some (Return _, Some e) \<Rightarrow> Some (Return (Inl (Wrap ''failed to list files: %w'' e)))
      | Some (Return files, None) \<Rightarrow>
         Some (if files = [] then Return (Inl (Errorf ''no files to delete'' []))
          else if \<not> prints (requiredSpace # map (int \<circ> fi_Size) files) then Panic ''index out of range''
          else case input of
            [] \<Rightarrow> Return (Inl (Errorf ''failed to read input'' []))
          | line # rest \<Rightarrow>
             (let inp = TrimSpace line
              in if ToLower inp = ''cancel'' then Return (Inl (Errorf ''deletion cancelled by user'' []))
                 else case pick_files files (split (CHR '','') inp) of (filesToDelete, totalFreed) \<Rightarrow>
                   if filesToDelete = [] then Return (Inl (Errorf ''no valid files selected'' []))
                   else if \<not> prints [totalFreed] then Panic ''index out of range''
                   else case rest of
                     [] \<Rightarrow> Return (Inl (Errorf ''failed to read confirmation'' []))
                   | answer # _ \<Rightarrow>
                      (let confirmation = ToLower (TrimSpace answer)
                       in if confirmation \<noteq> ''yes'' \<and> confirmation \<noteq> ''y''
                          then Return (Inl (Errorf ''deletion not confirmed'' []))
                          else Return (Inr filesToDelete)))))"

section \<open>Usage is the sum of the file sizes\<close>

definition entry_size :: "path \<times> inode \<Rightarrow> int" where
  "entry_size e = (case snd e of Dir \<Rightarrow> 0 | File b \<Rightarrow> int (length b))"

definition tree_size :: "fs \<Rightarrow> path \<Rightarrow> int" where
  "tree_size fs p = sum_list (map entry_size (filter (\<lambda>e. below p (fst e)) fs))"

interpretation usage: walk_reader usage_cb usage_add
  by unfold_locales (simp add: usage_cb_def)

lemma i64_range_id: "i64 n = n \<longleftrightarrow> - (2 ^ 63) \<le> n \<and> n < 2 ^ 63"
  using i64_range [of n] i64_id [of n] by auto

lemma usage_collect: "usage.collect vs (i64 n) = i64 (n + sum_list (map (entry_size \<circ> entry_of) vs))"
proof (induction vs arbitrary: n)
  case Nil
  show ?case by simp
next
  case (Cons v vs)
  obtain p i where v: "v = (p, i)" by fastforce
  have "usage_add p i (i64 n) = i64 (n + entry_size (entry_of v))"
    by (cases i) (simp_all add: v usage_add_def entry_size_def entry_of_def i64_add)
  with Cons.IH [of "n + entry_size (entry_of v)"] v show ?case
    by (simp add: add.assoc)
qed

lemma GetCurrentUsage_eq:
  assumes "fs_wf fs" and "rt \<noteq> []" and "\<not> is_root (path_of rt)" and "fs_get fs (path_of rt) = Some i"
  shows "GetCurrentUsage fs rt = Some (Inr (i64 (tree_size fs (path_of rt))))"
proof -
  let ?vs = "visits (walk_fuel fs) fs rt i"
  have "sum_list (map (entry_size \<circ> entry_of) ?vs) = sum_mset (image_mset entry_size (mset (map entry_of ?vs)))"
    by (simp flip: sum_mset_sum_list mset_map add: comp_def)
  also have "\<dots> = tree_size fs (path_of rt)"
    unfolding visits_perm [OF assms] tree_size_def by (simp only: sum_mset_sum_list [symmetric] mset_map)
  finally have "usage.collect ?vs 0 = i64 (tree_size fs (path_of rt))"
    using usage_collect [of ?vs 0] by simp
  then show ?thesis
    by (simp add: GetCurrentUsage_def usage.Walk_reads [OF assms])
qed

lemma GetCurrentUsage_missing: "os_Stat fs rt = Inl e \<Longrightarrow> GetCurrentUsage fs rt = Some (Inr 0)"
  by (simp add: GetCurrentUsage_def Walk_def usage_cb_def)

lemma tree_size_nonneg: "0 \<le> tree_size fs p"
  unfolding tree_size_def entry_size_def by (intro sum_list_nonneg) (auto split: inode.splits)

lemma CheckQuota_eq:
  assumes "GetCurrentUsage fs rt = Some (Inr used)" and "0 \<le> used"
    and "MaxStorageBytes (config qm) < 2 ^ 63"
  shows "CheckQuota qm fs rt n =
    Some (Inr (n \<le> max 0 (MaxStorageBytes (config qm) - used), max 0 (MaxStorageBytes (config qm) - used)))"
proof -
  have "i64 (MaxStorageBytes (config qm) - used) = MaxStorageBytes (config qm) - used"
    if "used < MaxStorageBytes (config qm)"
    using that assms(2,3) by (intro i64_id) linarith+
  then show ?thesis
    using assms(1) by (auto simp: CheckQuota_def Let_def max_def)
qed

section \<open>Sizes are read as they are written\<close>

definition unit_names :: "string list" where
  "unit_names = [''B'', ''BYTES'', ''KB'', ''K'', ''MB'', ''M'', ''GB'', ''G'', ''TB'', ''T'']"

lemma size_unit_Some: "size_unit u = Some m \<Longrightarrow> u \<in> set unit_names"
  by (auto simp: size_unit_def unit_names_def split: if_splits)

lemma unit_name_props:
  assumes "size_unit u = Some m"
  shows "u \<noteq> []" and "\<not> is_space (last u)" and "\<not> num_char (hd u)" and "ToUpper u = u"
    and "TrimSpace u = u" and "\<exists>k \<in> {0, 10, 20, 30, 40}. m = 2 ^ k"
proof -
  have "list_all (\<lambda>u. u \<noteq> [] \<and> \<not> is_space (last u) \<and> \<not> num_char (hd u) \<and> ToUpper u = u \<and>
      TrimSpace u = u \<and> size_unit u \<in> set [Some 1, Some 1024, Some 1048576, Some 1073741824,
      Some 1099511627776]) unit_names"
    by code_simp
  with size_unit_Some [OF assms] assms
  have "u \<noteq> [] \<and> \<not> is_space (last u) \<and> \<not> num_char (hd u) \<and> ToUpper u = u \<and> TrimSpace u = u \<and>
    (m = 1 \<or> m = 1024 \<or> m = 1048576 \<or> m = 1073741824 \<or> m = 1099511627776)"
    by (auto simp: list_all_iff)
  then show "u \<noteq> []" and "\<not> is_space (last u)" and "\<not> num_char (hd u)" and "ToUpper u = u"
    and "TrimSpace u = u" and "\<exists>k \<in> {0, 10, 20, 30, 40}. m = 2 ^ k"
    by simp_all
qed

lemma TrimSpace_id: "s \<noteq> [] \<Longrightarrow> \<not> is_space (hd s) \<Longrightarrow> \<not> is_space (last s) \<Longrightarrow> TrimSpace s = s"
  by (simp add: TrimSpace_def hd_rev dropWhile_eq_self_iff [THEN iffD2])

lemma ParseStorageSize_digits:
  assumes "size_unit u = Some m" and "int n < 2 ^ 53" and "int n * m < 2 ^ 63"
  shows "ParseStorageSize (nat_str n @ u) = Inr (int n * m)"
proof -
  note u = unit_name_props [OF assms(1)]
  have digits: "num_char c" "to_upper c = c" "c \<noteq> CHR ''.''" "\<not> is_space c" if "c \<in> set (nat_str n)" for c
    using nat_str_chars [OF that] by (auto simp: num_char_def digit_char_props)
  have "\<not> is_space (hd (nat_str n))"
    by (rule digits(4)) simp
  then have trim: "TrimSpace (nat_str n @ u) = nat_str n @ u"
    using u(1,2) by (intro TrimSpace_id) simp_all
  have upper: "ToUpper (nat_str n @ u) = nat_str n @ u"
    using u(4) digits(2) by (simp add: ToUpper_def map_idI)
  have "takeWhile num_char (nat_str n @ u) = nat_str n" "dropWhile num_char (nat_str n @ u) = u"
    using digits(1) u(1,3) by (cases u; simp add: takeWhile_append dropWhile_append)+
  moreover have "ParseFloat_ranged (nat_str n) = Inr (of_int (int n))"
  proof -
    have "split (CHR ''.'') (nat_str n) = [nat_str n]"
      using digits(3) by (intro split_no_sep) blast
    moreover have "f64 (of_int (int n)) = of_int (int n)"
      using assms(2) by (intro f64_int) simp
    moreover have "(of_int (int n) :: rat) < of_int (2 ^ 53)"
      using assms(2) by (simp only: of_int_less_iff)
    then have "(of_int (int n) :: rat) < max_float"
      by (rule less_trans) (simp add: max_float_def)
    ultimately show ?thesis
      by (simp add: ParseFloat_ranged_def ParseFloat_def)
  qed
  moreover have "trunc64 (f64 (of_int (int n) * f64 (of_int m))) = int n * m"
  proof -
    obtain k where k: "m = 2 ^ k"
      using u(6) by blast
    then have "f64 (of_int m) = of_int m"
      using f64_int_shift [of 1 k] by simp
    moreover have "f64 (of_int (int n * m)) = of_int (int n * m)"
      using f64_int_shift [of "int n" k] assms(2) k by simp
    moreover have "0 \<le> int n * m"
      using k by simp
    ultimately have "f64 (of_int (int n) * f64 (of_int m)) = of_int (int n * m)"
      by simp
    then show ?thesis
      using assms(3) \<open>0 \<le> int n * m\<close> trunc64_int [of "int n * m"] by simp
  qed
  ultimately show ?thesis
    using trim upper u(5) assms(1) by (simp add: ParseStorageSize_def Let_def)
qed

section \<open>Only listed files are chosen\<close>

lemma pick_files_keys: "k \<in> set (fst (pick_files files ps)) \<Longrightarrow> k \<in> fi_Key ` set files"
proof (induction ps)
  case (Cons p ps)
  obtain ks freed where ps: "pick_files files ps = (ks, freed)" by fastforce
  have "files ! nat (num - 1) \<in> set files" if "\<not> num < 1" "\<not> int (length files) < num" for num
    using that by (intro nth_mem) linarith
  with Cons ps show ?case
    by (auto simp: Let_def split: option.splits if_splits)
qed simp

lemma PromptDeleteFiles_picks:
  assumes "PromptDeleteFiles s fs nid n input = Some (Return (Inr keys))"
    and "store_List s fs nid = Some (Return files, None)"
  shows "keys \<noteq> [] \<and> set keys \<subseteq> fi_Key ` set files \<and>
    (\<exists>a b rest. input = a # b # rest \<and> ToLower (TrimSpace b) \<in> {''y'', ''yes''} \<and> ToLower (TrimSpace a) \<noteq> ''cancel'')"
proof -
  obtain a b rest where inp: "input = a # b # rest" 
    using assms by (cases input; cases "tl input") (auto simp: PromptDeleteFiles_def Let_def split: if_splits prod.splits)
  obtain ks freed where pk: "pick_files files (split (CHR '','') (TrimSpace a)) = (ks, freed)"
    by fastforce
  have "keys = ks" "ks \<noteq> []" "ToLower (TrimSpace b) \<in> {''y'', ''yes''}" "ToLower (TrimSpace a) \<noteq> ''cancel''"
    using assms by (auto simp: PromptDeleteFiles_def Let_def inp pk simp del: pick_files.simps split: if_splits)
  with inp pk pick_files_keys [of _ files "split (CHR '','') (TrimSpace a)"] show ?thesis
    by auto
qed

end
