(* ===== verification/Server.thy ===== *)
theory Server
  imports Gc P2P Quota
begin

text \<open>
  \<open>internal/network/server.go\<close>: the file server.  A server is its options, its components, its disk,
  its connected peers and the channels on which pending downloads wait.  \<open>encoding/gob\<close> is a parameter.
  Operations that run on several goroutines are split at the points where they wait for another one.
  The accept loop of the transport is here as well, since it adds the peers of the server.
\<close>

section \<open>Messages\<close>

record StreamHeader =
  sh_ID :: string
  sh_Key :: string
  sh_Size :: int

record PeerInfo =
  pi_Address :: string
  pi_LastSeen :: int
  pi_Source :: string

text \<open>The dynamic type and value of \<open>Message.Payload\<close>.\<close>

datatype payload =
    NilPayload
  | MessageStoreFile string string int
  | MessageGetFile string string
  | MessagePeerExchange "PeerInfo list"

text \<open>The types that \<open>init\<close> registers and that can be a payload.\<close>

fun gob_registered :: "payload \<Rightarrow> bool" where
  "gob_registered (MessageGetFile _ _) = True"
| "gob_registered (MessagePeerExchange _) = True"
| "gob_registered (MessageStoreFile _ _ _) = False"
| "gob_registered NilPayload = False"

record gob =
  enc_hdr :: "StreamHeader \<Rightarrow> bytes result"
  dec_hdr :: "bytes \<Rightarrow> StreamHeader result"
  enc_msg :: "payload \<Rightarrow> bytes result"
  dec_msg :: "bytes \<Rightarrow> payload result"

text \<open>
  What the server relies on: a header decodes to what was encoded, an interface value can be encoded
  only if its type is registered, and then decodes to itself.
\<close>

definition gob_ok :: "gob \<Rightarrow> bool" where
  "gob_ok G \<longleftrightarrow>
     (\<forall>h. \<exists>b. enc_hdr G h = Inr b \<and> dec_hdr G b = Inr h) \<and>
     (\<forall>p. if gob_registered p then \<exists>b. enc_msg G p = Inr b \<and> dec_msg G b = Inr p
          else \<exists>e. enc_msg G p = Inl e)"

section \<open>The server\<close>

record PeerExchangeService =
  knownPeers :: "(string \<times> PeerInfo) list"
  pex_Enabled :: bool
  exchangeInterval :: int
  pex_stopped :: bool

record FileServerOpts =
  o_ID :: string
  o_EncKey :: bytes
  o_StorageRoot :: string
  o_PathTransformFunc :: "(string \<Rightarrow> PathKey) option"
  o_Transport :: TCPTransport
  o_BootstrapNodes :: "string list"
  o_FetchTimeout :: int
  o_PexInterval :: int
  o_GCInterval :: int
  o_GCDelay :: int

text \<open>
  A waiting channel is its number; \<open>ready\<close> holds the numbers whose buffer of one is full.
\<close>

record FileServer =
  srv_ID :: string
  EncKey :: bytes
  Transport :: TCPTransport
  BootstrapNodes :: "string list"
  FetchTimeout :: int
  Peers :: "(string \<times> TCPPeer) list"
  srv_store :: store
  QuotaMgr :: QuotaManager
  GC :: GarbageCollector
  srv_Metrics :: Metrics
  Pex :: PeerExchangeService
  quit_closed :: bool
  waiters :: "(string \<times> nat list) list"
  next_ch :: nat
  ready :: "nat list"
  disk :: fs

definition dur_default :: "int \<Rightarrow> int \<Rightarrow> int" where
  "dur_default d v = (if v = 0 then d else v)"

definition NewPeerExchangeService :: "int \<Rightarrow> PeerExchangeService" where
  "NewPeerExchangeService pexInterval =
     \<lparr>knownPeers = [], pex_Enabled = False, exchangeInterval = pexInterval, pex_stopped = False\<rparr>"

text \<open>\<open>NewFileServer\<close>; \<open>None\<close> is an exit of the process.\<close>

definition NewFileServer ::
    "json \<Rightarrow> FileServerOpts \<Rightarrow> entropy \<Rightarrow> int \<Rightarrow> fs \<Rightarrow> FileServer option" where
  "NewFileServer J opts rnd now fs =
     (case (if length (o_ID opts) = 0 then GenerateID rnd else Inr (o_ID opts)) of
        Inl _ \<Rightarrow> None
      | Inr nid \<Rightarrow>
         (case ValidateNodeID nid of
            Inl _ \<Rightarrow> None
          | Inr _ \<Rightarrow>
             (let s = NewStore J \<lparr>opt_Root = o_StorageRoot opts,
                                  opt_PathTransformFunc = o_PathTransformFunc opts\<rparr> fs
              in case NewGarbageCollector s nid (dur_default (3600 * sec) (o_GCInterval opts))
                        (dur_default (300 * sec) (o_GCDelay opts)) of
                   None \<Rightarrow> None
                 | Some gc \<Rightarrow>
                     Some \<lparr>srv_ID = nid, EncKey = o_EncKey opts, Transport = o_Transport opts,
                           BootstrapNodes = o_BootstrapNodes opts,
                           FetchTimeout = dur_default (5 * sec) (o_FetchTimeout opts),
                           Peers = [], srv_store = s, QuotaMgr = NewQuotaManager (o_StorageRoot opts),
                           GC = gc, srv_Metrics = NewMetrics now now,
                           Pex = NewPeerExchangeService (dur_default (300 * sec) (o_PexInterval opts)),
                           quit_closed = False, waiters = [], next_ch = 0, ready = [], disk = fs\<rparr>)))"

section \<open>Sending\<close>

text \<open>The loop of \<open>broadcast\<close>: an error of the first send is ignored, one of the second recorded.\<close>

fun send_all :: "bytes \<Rightarrow> (string \<times> TCPPeer) list \<Rightarrow> (string \<times> TCPPeer) list \<times> string list" where
  "send_all buf [] = ([], [])"
| "send_all buf ((addr, peer) # ps) =
     (case Send peer [IncomingMessage] of (peer1, _) \<Rightarrow>
      case Send peer1 buf of (peer2, e) \<Rightarrow>
      case send_all buf ps of (ps', failed) \<Rightarrow>
        ((addr, peer2) # ps', if e = None then failed else addr # failed))"

definition broadcast :: "gob \<Rightarrow> FileServer \<Rightarrow> payload \<Rightarrow> FileServer \<times> error option" where
  "broadcast G s msg =
     (case enc_msg G msg of
        Inl e \<Rightarrow> (s, Some e)
      | Inr buf \<Rightarrow>
         (case send_all buf (Peers s) of (ps, failed) \<Rightarrow>
          (s\<lparr>Peers := ps\<rparr>,
           if length failed > 0
           then Some (Errorf ''broadcast failed to %d peer(s): %v'' (Itoa (int (length failed)) # failed))
           else None)))"

text \<open>\<open>io.Copy\<close> to a connection.\<close>

definition copy_to_peer :: "TCPPeer \<Rightarrow> reader \<Rightarrow> TCPPeer \<times> error option" where
  "copy_to_peer p r =
     (case drain r of (d, re) \<Rightarrow>
      case Send p d of (p', Some e) \<Rightarrow> (p', Some e) | (p', None) \<Rightarrow> (p', re))"

definition header_size_bytes :: "nat \<Rightarrow> bytes" where
  "header_size_bytes len = le_bytes 2 (nat (i16 (int len) mod 2 ^ 16))"

definition sendStream ::
    "gob \<Rightarrow> FileServer \<Rightarrow> TCPPeer \<Rightarrow> string \<Rightarrow> int \<Rightarrow> reader \<Rightarrow> TCPPeer \<times> error option" where
  "sendStream G s peer key len r =
     (case Send peer [IncomingStream] of
        (p1, Some e) \<Rightarrow> (p1, Some e)
      | (p1, None) \<Rightarrow>
         (case enc_hdr G \<lparr>sh_ID = srv_ID s, sh_Key = key, sh_Size = len\<rparr> of
            Inl e \<Rightarrow> (p1, Some e)
          | Inr buf \<Rightarrow>
             (case Send p1 (header_size_bytes (length buf)) of
                (p2, Some e) \<Rightarrow> (p2, Some e)
              | (p2, None) \<Rightarrow>
                 (case Send p2 buf of
                    (p3, Some e) \<Rightarrow> (p3, Some e)
                  | (p3, None) \<Rightarrow> copy_to_peer p3 r))))"

section \<open>Waiting for files\<close>

definition maxWaitersPerKey :: nat where
  "maxWaitersPerKey = 100"

definition waiting :: "FileServer \<Rightarrow> string \<Rightarrow> nat list" where
  "waiting s h = (case map_of (waiters s) h of None \<Rightarrow> [] | Some cs \<Rightarrow> cs)"

definition registerFileWaiter :: "FileServer \<Rightarrow> string \<Rightarrow> FileServer \<times> nat result" where
  "registerFileWaiter s key =
     (let hashedKey = HashKey key
      in if length (waiting s hashedKey) \<ge> maxWaitersPerKey
         then (s, Inl (Errorf ''too many waiters for key %s'' [hashedKey]))
         else let ch = next_ch s
              in (s\<lparr>next_ch := ch + 1, waiters := AList.update hashedKey (waiting s hashedKey @ [ch]) (waiters s)\<rparr>,
                  Inr ch))"

definition notifyFileWaiter :: "FileServer \<Rightarrow> string \<Rightarrow> FileServer" where
  "notifyFileWaiter s hashedKey =
     (case map_of (waiters s) hashedKey of
        None \<Rightarrow> s
      | Some channels \<Rightarrow>
          s\<lparr>ready := ready s @ filter (\<lambda>c. c \<notin> set (ready s)) channels,
            waiters := AList.delete hashedKey (waiters s)\<rparr>)"

section \<open>Receiving a stream\<close>

text \<open>What is left of a reader after at most \<open>n\<close> bytes were copied from it through a limit.\<close>

fun rd_rest :: "nat \<Rightarrow> reader \<Rightarrow> reader" where
  "rd_rest n [] = []"
| "rd_rest n ((b, s) # r) =
     (if n = 0 then (b, s) # r
      else if n < length b then (drop n b, s) # r
      else case s of ROk \<Rightarrow> rd_rest (n - length b) r | REof \<Rightarrow> [] | RErr _ \<Rightarrow> r)"

definition store_opens :: "json \<Rightarrow> store \<Rightarrow> fs \<Rightarrow> string \<Rightarrow> string \<Rightarrow> bool" where
  "store_opens J s fs nid key =
     (case rememberKey J s fs key of (s', fs') \<Rightarrow>
      case openFileForWriting s' fs' nid key of (_, Inl _) \<Rightarrow> False | (_, Inr _) \<Rightarrow> True)"

text \<open>The part after the peer was found: what the deferred \<open>CloseStream\<close> sees is the last component.\<close>

definition receive_file ::
    "json \<Rightarrow> FileServer \<Rightarrow> StreamHeader \<Rightarrow> TCPPeer \<Rightarrow> FileServer \<times> TCPPeer \<times> error option" where
  "receive_file J s header peer =
     (let n = nat (sh_Size header)
      in case store_Write J (srv_store s) (disk s) (srv_ID s) (sh_Key header) (LimitReader n (peer_in peer)) of
           (st', fs', res) \<Rightarrow>
             let s' = s\<lparr>srv_store := st', disk := fs'\<rparr>;
                 peer' = (if store_opens J (srv_store s) (disk s) (srv_ID s) (sh_Key header)
                          then peer\<lparr>peer_in := rd_rest n (peer_in peer)\<rparr> else peer)
             in case res of
                  Inl e \<Rightarrow> (s', peer', Some e)
                | Inr _ \<Rightarrow> (notifyFileWaiter s' (sh_Key header), peer', None))"

definition receive_header ::
    "gob \<Rightarrow> json \<Rightarrow> FileServer \<Rightarrow> TCPPeer \<Rightarrow> (FileServer \<times> TCPPeer \<times> error option) go" where
  "receive_header G J s peer =
     (case ReadFull 2 (peer_in peer) of
        (Inl e, r1) \<Rightarrow> Return (s, peer\<lparr>peer_in := r1\<rparr>, Some e)
      | (Inr sz, r1) \<Rightarrow>
         (let headerSize = i16 (int (of_le_bytes sz))
          in if headerSize < 0 then Panic ''makeslice: len out of range''
             else case ReadFull (nat headerSize) r1 of
               (Inl e, r2) \<Rightarrow> Return (s, peer\<lparr>peer_in := r2\<rparr>, Some e)
             | (Inr headerBuf, r2) \<Rightarrow>
                (case dec_hdr G headerBuf of
                   Inl e \<Rightarrow> Return (s, peer\<lparr>peer_in := r2\<rparr>, Some e)
                 | Inr header \<Rightarrow> Return (receive_file J s header (peer\<lparr>peer_in := r2\<rparr>)))))"

definition handleStream :: "gob \<Rightarrow> json \<Rightarrow> FileServer \<Rightarrow> string \<Rightarrow> (FileServer \<times> error option) go" where
  "handleStream G J s from =
     (case map_of (Peers s) from of
        None \<Rightarrow> Return (s, Some (Errorf ''peer %s not found in map'' [from]))
      | Some peer \<Rightarrow>
         (case receive_header G J s peer of
            Panic x \<Rightarrow> Panic x
          | Return (s', peer', e) \<Rightarrow>
             (case CloseStream peer' of
                Panic x \<Rightarrow> Panic x
              | Return peer'' \<Rightarrow> Return (s'\<lparr>Peers := AList.update from peer'' (Peers s')\<rparr>, e))))"

section \<open>Operations\<close>

text \<open>
  \<open>decryptOnTheFly\<close>: the reader of the pipe.  \<open>cancel\<close> is a cancellation that wins after the reader
  has taken a number of bytes.
\<close>

definition decryptOnTheFly :: "FileServer \<Rightarrow> (nat \<times> error) option \<Rightarrow> reader \<Rightarrow> reader" where
  "decryptOnTheFly s cancel r =
     (case CopyDecrypt (EncKey s) r new_buffer of (w, res) \<Rightarrow>
      case cancel of
        Some (k, e) \<Rightarrow> [(take k (w_buf w), RErr e)]
      | None \<Rightarrow> (case res of Inr _ \<Rightarrow> [(w_buf w, REof)] | Inl e \<Rightarrow> [(w_buf w, RErr e)]))"

text \<open>
  \<open>Get\<close> up to the wait: a local file is served, otherwise a channel is registered and the request is
  broadcast (its errors are only logged).  \<open>get_resume\<close> is the rest, for each way the wait can end.
\<close>

datatype get_state = Served "reader result" | Waiting_on nat

definition Get :: "gob \<Rightarrow> FileServer \<Rightarrow> (nat \<times> error) option \<Rightarrow> string \<Rightarrow> FileServer \<times> get_state" where
  "Get G s cancel key =
     (if store_Has (srv_store s) (disk s) (srv_ID s) key
      then (s, Served (case store_Read (srv_store s) (disk s) (srv_ID s) key of
                         Inl e \<Rightarrow> Inl e
                       | Inr (_, r) \<Rightarrow> Inr (decryptOnTheFly s cancel r)))
      else case registerFileWaiter s key of
             (s1, Inl e) \<Rightarrow> (s1, Served (Inl e))
           | (s1, Inr ch) \<Rightarrow>
               (fst (broadcast G s1 (MessageGetFile (srv_ID s) (HashKey key))), Waiting_on ch))"

datatype wake = Notified | CtxCancelled error | TimedOut

definition wake_enabled :: "FileServer \<Rightarrow> nat \<Rightarrow> wake \<Rightarrow> bool" where
  "wake_enabled s ch w = (case w of Notified \<Rightarrow> ch \<in> set (ready s) | _ \<Rightarrow> True)"

definition get_resume :: "FileServer \<Rightarrow> (nat \<times> error) option \<Rightarrow> string \<Rightarrow> wake \<Rightarrow> reader result" where
  "get_resume s cancel key w =
     (case w of
        CtxCancelled e \<Rightarrow> Inl e
      | TimedOut \<Rightarrow> Inl (Errorf ''file %s not found on the network (timeout)'' [key])
      | Notified \<Rightarrow>
         (case store_Read (srv_store s) (disk s) (srv_ID s) key of
            Inl e \<Rightarrow> Inl e
          | Inr (_, r) \<Rightarrow> Inr (decryptOnTheFly s cancel r)))"

text \<open>
  \<open>Store\<close>: one goroutine per peer, each on its own connection, reading the file just written.
\<close>

definition stream_to :: "gob \<Rightarrow> FileServer \<Rightarrow> bool \<Rightarrow> string \<Rightarrow> int \<Rightarrow> TCPPeer \<Rightarrow> TCPPeer" where
  "stream_to G s cancelled key len p =
     (if cancelled then p
      else case store_Read (srv_store s) (disk s) (srv_ID s) key of
             Inl _ \<Rightarrow> p
           | Inr (_, fileReader) \<Rightarrow> fst (sendStream G s p key len fileReader))"

definition Store ::
    "gob \<Rightarrow> json \<Rightarrow> FileServer \<Rightarrow> entropy \<Rightarrow> bool \<Rightarrow> string \<Rightarrow> reader \<Rightarrow> FileServer \<times> error option" where
  "Store G J s rnd cancelled key r =
     (case store_WriteEncrypt J (srv_store s) (disk s) rnd (EncKey s) (srv_ID s) key r of (st', fs', res) \<Rightarrow>
      let s' = s\<lparr>srv_store := st', disk := fs'\<rparr>
      in case res of
           Inl e \<Rightarrow> (s', Some e)
         | Inr len \<Rightarrow>
             (s'\<lparr>Peers := map (\<lambda>(a, p). (a, stream_to G s' cancelled key (int len) p)) (Peers s')\<rparr>, None))"

definition Stop :: "FileServer \<Rightarrow> FileServer go" where
  "Stop s = (if quit_closed s then Panic ''close of closed channel'' else Return (s\<lparr>quit_closed := True\<rparr>))"

definition OnPeer :: "FileServer \<Rightarrow> TCPPeer \<Rightarrow> FileServer" where
  "OnPeer s p = s\<lparr>Peers := AList.update (RemoteAddr p) p (Peers s)\<rparr>"

text \<open>
  A connection is opened by the peer it makes, the handshake and \<open>OnPeer\<close>, and then read.  A failed
  \<open>Accept\<close> is only logged, and the connection it did not return is handled all the same.
\<close>

definition handleConn :: "FileServer \<Rightarrow> string \<Rightarrow> reader \<Rightarrow> writer \<Rightarrow> bool \<Rightarrow> FileServer \<times> conn" where
  "handleConn s addr r w out =
     (let peer = NewTCPPeer addr r w out
      in case NOPHandshakeFunc peer of
           Some e \<Rightarrow> (s, \<lparr>c_peer = peer, c_phase = Closed, c_queue = []\<rparr>)
         | None \<Rightarrow> (OnPeer s peer, \<lparr>c_peer = peer, c_phase = Reading, c_queue = []\<rparr>))"

datatype accepted = Accepted string reader writer | AcceptFailed error | AcceptClosed

fun startAcceptLoop :: "FileServer \<Rightarrow> accepted list \<Rightarrow> (FileServer \<times> conn list) go" where
  "startAcceptLoop s [] = Return (s, [])"
| "startAcceptLoop s (AcceptClosed # as) = Return (s, [])"
| "startAcceptLoop s (AcceptFailed e # as) = Panic ''invalid memory address or nil pointer dereference''"
| "startAcceptLoop s (Accepted addr r w # as) =
     (case handleConn s addr r w False of (s1, c) \<Rightarrow>
      case startAcceptLoop s1 as of
        Panic x \<Rightarrow> Panic x
      | Return (s2, cs) \<Rightarrow> Return (s2, c # cs))"

definition server_Delete :: "FileServer \<Rightarrow> string \<Rightarrow> FileServer \<times> error option" where
  "server_Delete s key =
     (if \<not> store_Has (srv_store s) (disk s) (srv_ID s) key
      then (s, Some (Errorf ''file not found'' []))
      else case store_Delete (srv_store s) (disk s) (srv_ID s) key of (fs', e) \<Rightarrow> (s\<lparr>disk := fs'\<rparr>, e))"

definition handleMessageGetFile :: "gob \<Rightarrow> FileServer \<Rightarrow> string \<Rightarrow> string \<Rightarrow> FileServer \<times> error option" where
  "handleMessageGetFile G s from key =
     (let missing = Errorf ''[%s] need to serve file (%s) but it does not exist on disk'' [Addr (Transport s), key]
      in case GetOriginalKey (srv_store s) key of
           None \<Rightarrow> (s, Some missing)
         | Some originalKey \<Rightarrow>
             if \<not> store_Has (srv_store s) (disk s) (srv_ID s) originalKey then (s, Some missing)
             else case store_Read (srv_store s) (disk s) (srv_ID s) originalKey of
               Inl e \<Rightarrow> (s, Some e)
             | Inr (fileSize, r) \<Rightarrow>
                (case map_of (Peers s) from of
                   None \<Rightarrow> (s, Some (Errorf ''peer %s not in map'' [from]))
                 | Some peer \<Rightarrow>
                    (case sendStream G s peer originalKey (int fileSize) r of (peer', e) \<Rightarrow>
                     (s\<lparr>Peers := AList.update from peer' (Peers s)\<rparr>, e))))"

text \<open>\<open>bootstrapNetwork\<close>: the addresses that are dialled.\<close>

definition bootstrapNetwork :: "FileServer \<Rightarrow> string list" where
  "bootstrapNetwork s = filter (\<lambda>addr. length addr \<noteq> 0) (BootstrapNodes s)"

definition ClearStorage :: "FileServer \<Rightarrow> FileServer \<times> error option" where
  "ClearStorage s = (case store_Clear (srv_store s) (disk s) of (fs', e) \<Rightarrow> (s\<lparr>disk := fs'\<rparr>, e))"

definition ClearKeyMapping :: "json \<Rightarrow> FileServer \<Rightarrow> FileServer" where
  "ClearKeyMapping J s =
     (case ClearKeyMap J (srv_store s) (disk s) of (st', fs') \<Rightarrow> s\<lparr>srv_store := st', disk := fs'\<rparr>)"

end
