(* ===== verification/PeerExchange.thy ===== *)
theory PeerExchange
  imports Server
begin

text \<open>
  \<open>internal/network/pex.go\<close> (peer exchange) and the message loop of \<open>server.go\<close> that dispatches to
  it.  The clock is an argument; a call of \<open>Transport.Dial\<close> in a goroutine is returned as an address to
  dial.
\<close>

section \<open>The cache of known peers\<close>

definition pex_Start :: "PeerExchangeService \<Rightarrow> PeerExchangeService" where
  "pex_Start pex = pex\<lparr>pex_Enabled := True\<rparr>"

definition pex_Stop :: "PeerExchangeService \<Rightarrow> PeerExchangeService go" where
  "pex_Stop pex =
     (if pex_stopped pex then Panic ''close of closed channel''
      else Return (pex\<lparr>pex_Enabled := False, pex_stopped := True\<rparr>))"

definition AddKnownPeer :: "int \<Rightarrow> PeerExchangeService \<Rightarrow> string \<Rightarrow> string \<Rightarrow> PeerExchangeService" where
  "AddKnownPeer now pex address source =
     (if \<not> pex_Enabled pex then pex
      else case map_of (knownPeers pex) address of
             Some peer \<Rightarrow> pex\<lparr>knownPeers := AList.update address (peer\<lparr>pi_LastSeen := now\<rparr>) (knownPeers pex)\<rparr>
           | None \<Rightarrow> pex\<lparr>knownPeers := AList.update address
                       \<lparr>pi_Address = address, pi_LastSeen = now, pi_Source = source\<rparr> (knownPeers pex)\<rparr>)"

definition GetKnownPeers :: "FileServer \<Rightarrow> PeerInfo list" where
  "GetKnownPeers s =
     map snd (filter (\<lambda>(addr, peer). map_of (Peers s) addr = None) (knownPeers (Pex s)))"

definition cleanupOldPeers :: "int \<Rightarrow> PeerExchangeService \<Rightarrow> PeerExchangeService" where
  "cleanupOldPeers now pex =
     (let cutoff = now - 30 * 60 * sec
      in pex\<lparr>knownPeers := filter (\<lambda>(addr, peer). \<not> pi_LastSeen peer < cutoff) (knownPeers pex)\<rparr>)"

definition GetPeerCount :: "PeerExchangeService \<Rightarrow> nat" where
  "GetPeerCount pex = length (knownPeers pex)"

fun count_sources :: "(string \<times> PeerInfo) list \<Rightarrow> (string \<times> nat) list \<Rightarrow> (string \<times> nat) list" where
  "count_sources [] counts = counts"
| "count_sources ((addr, peer) # ps) counts =
     count_sources ps (AList.update (pi_Source peer)
       (Suc (case map_of counts (pi_Source peer) of None \<Rightarrow> 0 | Some n \<Rightarrow> n)) counts)"

definition GetPeersBySource :: "PeerExchangeService \<Rightarrow> (string \<times> nat) list" where
  "GetPeersBySource pex = count_sources (knownPeers pex) []"

definition ExportPeerList :: "PeerExchangeService \<Rightarrow> PeerInfo list" where
  "ExportPeerList pex = map snd (knownPeers pex)"

section \<open>Exchanging\<close>

text \<open>The message of a round, if there is one: at most 20 peers.\<close>

definition exchange_message :: "FileServer \<Rightarrow> PeerInfo list option" where
  "exchange_message s =
     (if \<not> pex_Enabled (Pex s) then None
      else let known = GetKnownPeers s;
               known' = (if length known > 20 then take 20 known else known)
           in if length known' = 0 then None else Some known')"

definition exchangePeerLists :: "gob \<Rightarrow> FileServer \<Rightarrow> FileServer" where
  "exchangePeerLists G s =
     (case exchange_message s of
        None \<Rightarrow> s
      | Some peers \<Rightarrow> fst (broadcast G s (MessagePeerExchange peers)))"

text \<open>The loop of \<open>HandlePeerExchange\<close>: the new state and the addresses to dial.\<close>

fun handle_peers :: "int \<Rightarrow> FileServer \<Rightarrow> PeerInfo list \<Rightarrow> FileServer \<times> string list" where
  "handle_peers now s [] = (s, [])"
| "handle_peers now s (peer # ps) =
     (if pi_Address peer = Addr (Transport s) then handle_peers now s ps
      else if map_of (Peers s) (pi_Address peer) \<noteq> None then handle_peers now s ps
      else if map_of (knownPeers (Pex s)) (pi_Address peer) \<noteq> None then handle_peers now s ps
      else case handle_peers now (s\<lparr>Pex := AddKnownPeer now (Pex s) (pi_Address peer) ''pex''\<rparr>) ps of
             (s', dials) \<Rightarrow> (s', pi_Address peer # dials))"

definition HandlePeerExchange :: "int \<Rightarrow> FileServer \<Rightarrow> PeerInfo list \<Rightarrow> FileServer \<times> string list" where
  "HandlePeerExchange now s peers = (if \<not> pex_Enabled (Pex s) then (s, []) else handle_peers now s peers)"

text \<open>The two goroutines of \<open>Start\<close>: an exchange after thirty seconds and at every tick, and the cleanup.\<close>

datatype pex_event = ExchangeTick | PexDone

fun exchange_rounds :: "gob \<Rightarrow> FileServer \<Rightarrow> pex_event list \<Rightarrow> FileServer" where
  "exchange_rounds G s [] = s"
| "exchange_rounds G s (PexDone # es) = s"
| "exchange_rounds G s (ExchangeTick # es) = exchange_rounds G (exchangePeerLists G s) es"

definition periodicExchange :: "gob \<Rightarrow> FileServer \<Rightarrow> pex_event list \<Rightarrow> FileServer go" where
  "periodicExchange G s es =
     (if exchangeInterval (Pex s) \<le> 0 then Panic ''non-positive interval for NewTicker''
      else Return (exchange_rounds G s es))"

fun periodicCleanup :: "PeerExchangeService \<Rightarrow> int option list \<Rightarrow> PeerExchangeService" where
  "periodicCleanup pex [] = pex"
| "periodicCleanup pex (None # es) = pex"
| "periodicCleanup pex (Some now # es) = periodicCleanup (cleanupOldPeers now pex) es"

definition EnablePeerExchange :: "FileServer \<Rightarrow> FileServer" where
  "EnablePeerExchange s = s\<lparr>Pex := pex_Start (Pex s)\<rparr>"

definition RequestPeerList :: "gob \<Rightarrow> FileServer \<Rightarrow> string \<Rightarrow> FileServer \<times> error option" where
  "RequestPeerList G s peerAddr =
     (if \<not> pex_Enabled (Pex s) then (s, Some (Errorf ''PEX is not enabled'' []))
      else case map_of (Peers s) peerAddr of
        None \<Rightarrow> (s, Some (Errorf ''peer %s not found'' [peerAddr]))
      | Some peer \<Rightarrow>
         (case enc_msg G (MessagePeerExchange []) of
            Inl e \<Rightarrow> (s, Some e)
          | Inr buf \<Rightarrow>
             (case Send peer [IncomingMessage] of
                (p1, Some e) \<Rightarrow> (s\<lparr>Peers := AList.update peerAddr p1 (Peers s)\<rparr>, Some e)
              | (p1, None) \<Rightarrow>
                 (case Send p1 buf of (p2, e) \<Rightarrow>
                  (s\<lparr>Peers := AList.update peerAddr p2 (Peers s)\<rparr>, e)))))"

section \<open>The message loop\<close>

text \<open>The service of a server is never nil, since \<open>NewFileServer\<close> makes one.\<close>

definition handleMessagePeerExchange ::
    "int \<Rightarrow> FileServer \<Rightarrow> PeerInfo list \<Rightarrow> FileServer \<times> string list \<times> error option" where
  "handleMessagePeerExchange now s peers =
     (case HandlePeerExchange now s peers of (s', dials) \<Rightarrow> (s', dials, None))"

declare handleMessagePeerExchange_def [simp]

definition handleMessage ::
    "gob \<Rightarrow> int \<Rightarrow> FileServer \<Rightarrow> string \<Rightarrow> payload \<Rightarrow> FileServer \<times> string list \<times> error option" where
  "handleMessage G now s from msg =
     (case msg of
        MessageGetFile nid key \<Rightarrow> (case handleMessageGetFile G s from key of (s', e) \<Rightarrow> (s', [], e))
      | MessagePeerExchange peers \<Rightarrow> handleMessagePeerExchange now s peers
      | _ \<Rightarrow> (s, [], None))"

text \<open>
  One message of the loop.  A payload that does not decode is logged, and the empty message is handled
  all the same.
\<close>

definition loop_rpc :: "gob \<Rightarrow> json \<Rightarrow> int \<Rightarrow> FileServer \<Rightarrow> RPC \<Rightarrow> (FileServer \<times> string list) go" where
  "loop_rpc G J now s rpc =
     (if rpc_Stream rpc then
        (case handleStream G J s (rpc_From rpc) of Panic x \<Rightarrow> Panic x | Return (s', _) \<Rightarrow> Return (s', []))
      else
        let msg = (case dec_msg G (rpc_Payload rpc) of Inl _ \<Rightarrow> NilPayload | Inr p \<Rightarrow> p)
        in case handleMessage G now s (rpc_From rpc) msg of (s', dials, _) \<Rightarrow> Return (s', dials))"

datatype srv_event = GotRPC int RPC | QuitCh | LoopCtxDone

fun loop :: "gob \<Rightarrow> json \<Rightarrow> FileServer \<Rightarrow> srv_event list \<Rightarrow> (FileServer \<times> string list \<times> bool) go" where
  "loop G J s [] = Return (s, [], True)"
| "loop G J s (GotRPC now rpc # es) =
     (case loop_rpc G J now s rpc of
        Panic x \<Rightarrow> Panic x
      | Return (s', dials) \<Rightarrow>
         (case loop G J s' es of
            Panic x \<Rightarrow> Panic x
          | Return (s'', dials', running) \<Rightarrow> Return (s'', dials @ dials', running)))"
| "loop G J s (_ # es) =
     (case transport_Close (Transport s) of
        Panic x \<Rightarrow> Panic x
      | Return (t, _) \<Rightarrow> Return (s\<lparr>Transport := t\<rparr>, [], False))"

text \<open>
  \<open>Start\<close>: the outcome of listening and the events of the loop are given.  The bootstrap nodes are dialled,
  and the garbage collector's goroutine is begun, which needs a positive interval.
\<close>

definition Start ::
    "gob \<Rightarrow> json \<Rightarrow> (string \<Rightarrow> error option) \<Rightarrow> FileServer \<Rightarrow> srv_event list \<Rightarrow>
     (FileServer \<times> string list \<times> error option) go" where
  "Start G J net_listen s es =
     (case ListenAndAccept net_listen (Transport s) of
        (t, Some e) \<Rightarrow> Return (s\<lparr>Transport := t\<rparr>, [], Some e)
      | (t, None) \<Rightarrow>
         if cleanupInterval (GC s) \<le> 0 then Panic ''non-positive interval for NewTicker''
         else case loop G J (s\<lparr>Transport := t\<rparr>) es of
           Panic x \<Rightarrow> Panic x
         | Return (s', dials, running) \<Rightarrow> Return (s', bootstrapNetwork s @ dials, None))"

section \<open>Properties of the cache\<close>

lemma handle_peers_frame:
  assumes "handle_peers now s ps = (s', dials)"
  shows "Transport s' = Transport s" and "Peers s' = Peers s" and "disk s' = disk s"
    and "srv_store s' = srv_store s" and "waiters s' = waiters s" and "srv_ID s' = srv_ID s"
    and "pex_Enabled (Pex s') = pex_Enabled (Pex s)"
proof -
  have "Transport s' = Transport s \<and> Peers s' = Peers s \<and> disk s' = disk s \<and> srv_store s' = srv_store s \<and>
      waiters s' = waiters s \<and> srv_ID s' = srv_ID s \<and> pex_Enabled (Pex s') = pex_Enabled (Pex s)"
    using assms
  proof (induction now s ps arbitrary: dials rule: handle_peers.induct)
    case (2 now s peer ps)
    then show ?case
      by (auto simp: AddKnownPeer_def split: if_splits prod.splits option.splits)
  qed simp
  then show "Transport s' = Transport s" and "Peers s' = Peers s" and "disk s' = disk s"
    and "srv_store s' = srv_store s" and "waiters s' = waiters s" and "srv_ID s' = srv_ID s"
    and "pex_Enabled (Pex s') = pex_Enabled (Pex s)"
    by simp_all
qed

text \<open>
  The addresses to dial are new: not ours, not connected, not known before; none is dialled twice; and
  afterwards all of them are known.
\<close>

text \<open>What handling a list does: the dials are new, distinct addresses of the list, and known from then on.\<close>

definition handled :: "FileServer \<Rightarrow> PeerInfo list \<Rightarrow> FileServer \<Rightarrow> string list \<Rightarrow> bool" where
  "handled s ps s' dials \<longleftrightarrow>
     distinct dials \<and> set dials \<subseteq> pi_Address ` set ps \<and>
     (\<forall>a \<in> set dials. a \<noteq> Addr (Transport s) \<and> map_of (Peers s) a = None \<and>
        map_of (knownPeers (Pex s)) a = None \<and> map_of (knownPeers (Pex s')) a \<noteq> None) \<and>
     (\<forall>a. map_of (knownPeers (Pex s)) a \<noteq> None \<longrightarrow> map_of (knownPeers (Pex s')) a \<noteq> None)"

lemma handled_skip: "handled s ps s' dials \<Longrightarrow> handled s (peer # ps) s' dials"
  by (auto simp: handled_def)

lemma handled_dial:
  assumes "handled (s\<lparr>Pex := AddKnownPeer now (Pex s) (pi_Address peer) ''pex''\<rparr>) ps s' dials"
    and "pex_Enabled (Pex s)" and "pi_Address peer \<noteq> Addr (Transport s)"
    and "map_of (Peers s) (pi_Address peer) = None" and "map_of (knownPeers (Pex s)) (pi_Address peer) = None"
  shows "handled s (peer # ps) s' (pi_Address peer # dials)"
proof -
  let ?s1 = "s\<lparr>Pex := AddKnownPeer now (Pex s) (pi_Address peer) ''pex''\<rparr>"
  have known1: "map_of (knownPeers (Pex ?s1)) b = None \<longleftrightarrow>
      map_of (knownPeers (Pex s)) b = None \<and> b \<noteq> pi_Address peer" for b
    using assms(2,5) by (simp add: AddKnownPeer_def update_conv')
  have new: "b \<noteq> Addr (Transport s) \<and> map_of (Peers s) b = None \<and> map_of (knownPeers (Pex ?s1)) b = None \<and>
      map_of (knownPeers (Pex s')) b \<noteq> None" if "b \<in> set dials" for b
    using assms(1) that by (simp add: handled_def)
  have old: "map_of (knownPeers (Pex s')) b \<noteq> None" if "map_of (knownPeers (Pex ?s1)) b \<noteq> None" for b
    using assms(1) that by (simp add: handled_def)
  have all: "map_of (knownPeers (Pex s')) b \<noteq> None"
    if "b = pi_Address peer \<or> map_of (knownPeers (Pex s)) b \<noteq> None" for b
    by (rule old, unfold known1) (use that in blast)
  have "distinct dials" "set dials \<subseteq> pi_Address ` set ps"
    using assms(1) by (simp_all add: handled_def)
  then show ?thesis
    unfolding handled_def using new all assms(3-5) known1 by (simp add: subset_insertI2) blast
qed

lemma handle_peers_handled:
  "pex_Enabled (Pex s) \<Longrightarrow> handle_peers now s ps = (s', dials) \<Longrightarrow> handled s ps s' dials"
proof (induction now s ps arbitrary: dials rule: handle_peers.induct)
  case (1 now s)
  then show ?case by (simp add: handled_def)
next
  case (2 now s peer ps)
  let ?a = "pi_Address peer" and ?s1 = "s\<lparr>Pex := AddKnownPeer now (Pex s) (pi_Address peer) ''pex''\<rparr>"
  show ?case
  proof (cases "?a = Addr (Transport s) \<or> map_of (Peers s) ?a \<noteq> None \<or> map_of (knownPeers (Pex s)) ?a \<noteq> None")
    case True
    then have "handle_peers now s ps = (s', dials)"
      using "2.prems"(2) by (auto split: if_splits)
    then have "handled s ps s' dials"
      using "2.IH"(1) [OF _ "2.prems"(1)] "2.IH"(2) [OF _ _ "2.prems"(1)] "2.IH"(3) [OF _ _ _ "2.prems"(1)] True
      by blast
    then show ?thesis by (rule handled_skip)
  next
    case False
    then obtain ds where rec: "handle_peers now ?s1 ps = (s', ds)" and dials: "dials = ?a # ds"
      using "2.prems"(2) by (auto split: prod.splits)
    have "pex_Enabled (Pex ?s1)"
      using False "2.prems"(1) by (simp add: AddKnownPeer_def)
    with rec have "handled ?s1 ps s' ds"
      using False by (intro "2.IH"(4)) auto
    with False "2.prems"(1) show ?thesis
      unfolding dials by (intro handled_dial) auto
  qed
qed

lemma handle_peers_dials:
  assumes "pex_Enabled (Pex s)" and "handle_peers now s ps = (s', dials)"
  shows "distinct dials" and "set dials \<subseteq> pi_Address ` set ps"
    and "a \<in> set dials \<Longrightarrow> a \<noteq> Addr (Transport s) \<and> map_of (Peers s) a = None \<and>
      map_of (knownPeers (Pex s)) a = None \<and> map_of (knownPeers (Pex s')) a \<noteq> None"
    and "map_of (knownPeers (Pex s)) a \<noteq> None \<Longrightarrow> map_of (knownPeers (Pex s')) a \<noteq> None"
  using handle_peers_handled [OF assms] unfolding handled_def by blast+

section \<open>A network of exchanging nodes\<close>

text \<open>
  The nodes that run \<open>pex.go\<close>, and the peer lists under way between them.  Nodes connect, enable the
  service, send their lists in the periodic round, request lists, receive them and clean their caches.
\<close>

record pex_net =
  nodes :: "nat \<Rightarrow> FileServer"
  inflight :: "PeerInfo list set"

inductive pex_step :: "pex_net \<Rightarrow> nat \<Rightarrow> pex_net \<Rightarrow> bool" where
  pex_connect: "pex_step n i (n\<lparr>nodes := (nodes n)(i := OnPeer (nodes n i) p)\<rparr>)"
| pex_start: "pex_step n i (n\<lparr>nodes := (nodes n)(i := (nodes n i)\<lparr>Pex := pex_Start (Pex (nodes n i))\<rparr>)\<rparr>)"
| pex_stop: "pex_Stop (Pex (nodes n i)) = Return pex \<Longrightarrow>
    pex_step n i (n\<lparr>nodes := (nodes n)(i := (nodes n i)\<lparr>Pex := pex\<rparr>)\<rparr>)"
| pex_round: "exchange_message (nodes n i) = Some m \<Longrightarrow>
    pex_step n i (n\<lparr>nodes := (nodes n)(i := exchangePeerLists G (nodes n i)), inflight := insert m (inflight n)\<rparr>)"
| pex_request: "RequestPeerList G (nodes n i) a = (s', None) \<Longrightarrow>
    pex_step n i (n\<lparr>nodes := (nodes n)(i := s'), inflight := insert [] (inflight n)\<rparr>)"
| pex_receive: "m \<in> inflight n \<Longrightarrow> HandlePeerExchange now (nodes n i) m = (s', dials) \<Longrightarrow>
    pex_step n i (n\<lparr>nodes := (nodes n)(i := s')\<rparr>)"
| pex_clean: "pex_step n i
    (n\<lparr>nodes := (nodes n)(i := (nodes n i)\<lparr>Pex := cleanupOldPeers now (Pex (nodes n i))\<rparr>)\<rparr>)"

inductive_cases pex_stepE: "pex_step n i n'"

definition pex_init :: "pex_net \<Rightarrow> bool" where
  "pex_init n \<longleftrightarrow> inflight n = {} \<and> (\<forall>i. \<exists>d. Pex (nodes n i) = NewPeerExchangeService d)"

definition pex_silent :: "pex_net \<Rightarrow> bool" where
  "pex_silent n \<longleftrightarrow> inflight n \<subseteq> {[]} \<and> (\<forall>i. knownPeers (Pex (nodes n i)) = [])"

lemma silent_no_message: "knownPeers (Pex s) = [] \<Longrightarrow> exchange_message s = None"
  by (simp add: exchange_message_def GetKnownPeers_def)

lemma RequestPeerList_Pex: "RequestPeerList G s a = (s', e) \<Longrightarrow> Pex s' = Pex s"
  by (auto simp: RequestPeerList_def split: if_splits option.splits sum.splits prod.splits)

interpretation pex_machine: machine pex_init pex_step pex_silent
proof
  fix n i n'
  show "pex_init n \<Longrightarrow> pex_silent n"
    by (auto simp: pex_init_def pex_silent_def NewPeerExchangeService_def) (metis PeerExchangeService.select_convs(1))
  assume "pex_silent n" and "pex_step n i n'"
  then have known: "\<And>i. knownPeers (Pex (nodes n i)) = []" and fl: "inflight n \<subseteq> {[]}"
    by (simp_all add: pex_silent_def)
  from \<open>pex_step n i n'\<close> show "pex_silent n'"
  proof cases
    case (pex_round m G)
    with silent_no_message [OF known] show ?thesis by simp
  next
    case (pex_request G a s')
    with known fl RequestPeerList_Pex show ?thesis by (auto simp: pex_silent_def)
  next
    case (pex_receive m now s' dials)
    with fl have "m = []" by blast
    with pex_receive known fl show ?thesis
      by (auto simp: pex_silent_def HandlePeerExchange_def split: if_splits)
  qed (use known fl in \<open>auto simp: pex_silent_def OnPeer_def pex_Start_def pex_Stop_def cleanupOldPeers_def
        split: if_splits\<close>)
qed

lemma handle_peers_set:
  "pex_Enabled (Pex s) \<Longrightarrow> handle_peers now s ps = (s', dials) \<Longrightarrow>
   set dials = {a \<in> pi_Address ` set ps. a \<noteq> Addr (Transport s) \<and>
      map_of (Peers s) a = None \<and> map_of (knownPeers (Pex s)) a = None}"
proof (induction ps arbitrary: s dials)
  case (Cons p ps)
  let ?a = "pi_Address p" and ?s = "s\<lparr>Pex := AddKnownPeer now (Pex s) (pi_Address p) ''pex''\<rparr>"
  show ?case
  proof (cases "?a = Addr (Transport s) \<or> map_of (Peers s) ?a \<noteq> None \<or> map_of (knownPeers (Pex s)) ?a \<noteq> None")
    case True
    then have "handle_peers now s (p # ps) = handle_peers now s ps"
      by auto
    then have "set dials = {a \<in> pi_Address ` set ps. a \<noteq> Addr (Transport s) \<and>
      map_of (Peers s) a = None \<and> map_of (knownPeers (Pex s)) a = None}"
      using Cons by simp
    with True show ?thesis by auto
  next
    case False
    then obtain ds where ds: "dials = ?a # ds" "handle_peers now ?s ps = (s', ds)"
      using Cons.prems(2) by (auto split: prod.splits)
    have new: "pex_Enabled (Pex ?s)"
      "map_of (knownPeers (Pex ?s)) a = None \<longleftrightarrow> a \<noteq> ?a \<and> map_of (knownPeers (Pex s)) a = None" for a
      using False Cons.prems(1) by (auto simp: AddKnownPeer_def update_conv' split: option.splits)
    have "set ds = {a \<in> pi_Address ` set ps. a \<noteq> Addr (Transport s) \<and> map_of (Peers s) a = None \<and>
        map_of (knownPeers (Pex ?s)) a = None}"
      using Cons.IH [OF new(1) ds(2)] by simp
    with False ds(1) new(2) show ?thesis by auto
  qed
qed simp

end
