(* ===== verification/MetricsServer.thy ===== *)
theory MetricsServer
  imports Metrics
begin

text \<open>
  \<open>internal/metrics/metrics_server.go\<close>: the HTTP server of the metrics: its handlers, with the text of the
  root page, the routing, and starting and stopping it.  The socket is a parameter.
\<close>

section \<open>The HTTP server\<close>

definition escapeHTML :: "string \<Rightarrow> string" where
  "escapeHTML s =
     (let s1 = ReplaceAll s (CHR ''&'') ''&amp;'';
          s2 = ReplaceAll s1 (CHR ''<'') ''&lt;'';
          s3 = ReplaceAll s2 (CHR ''>'') ''&gt;'';
          s4 = ReplaceAll s3 (CHR 0x22) ''&quot;'';
          s5 = ReplaceAll s4 (CHR 0x27) ''&#39;''
      in s5)"

record response =
  ContentType :: string
  StatusCode :: nat
  Body :: string

definition handleMetrics :: "int \<Rightarrow> Metrics \<Rightarrow> response" where
  "handleMetrics now m =
     \<lparr>ContentType = ''text/plain; version=0.0.4'', StatusCode = 200, Body = ToPrometheusFormat now m\<rparr>"

definition handleMetricsJSON :: "(string \<Rightarrow> int \<Rightarrow> string) \<Rightarrow> int \<Rightarrow> Metrics \<Rightarrow> response" where
  "handleMetricsJSON tf now m =
     \<lparr>ContentType = ''application/json'', StatusCode = 200, Body = ToJSONFormat tf now m\<rparr>"

definition handleMetricsHuman :: "(string \<Rightarrow> int \<Rightarrow> string) \<Rightarrow> int \<Rightarrow> Metrics \<Rightarrow> response go" where
  "handleMetricsHuman tf now m =
     (case ToHumanFormat tf now m of
        Panic x \<Rightarrow> Panic x
      | Return b \<Rightarrow> Return \<lparr>ContentType = ''text/plain'', StatusCode = 200, Body = b\<rparr>)"

definition handleHealth :: "int \<Rightarrow> Metrics \<Rightarrow> response" where
  "handleHealth now m =
     \<lparr>ContentType = ''application/json'', StatusCode = 200,
      Body = (let q = [CHR 0x22]
              in ''{'' @ q @ ''status'' @ q @ '':'' @ q @ ''healthy'' @ q @ '','' @ q @ ''uptime_seconds'' @ q @
                 '':'' @ fmt_f 2 (dur_units sec (GetUptime now m)) @ ''}'')\<rparr>"

text \<open>The lines of the root page before and after the summary.\<close>

definition page_head :: "string list" where
  \<open>page_head =
     [''<!DOCTYPE html>'',
      ''<html>'',
      ''<head>'',
      ''    <title>PeerVault Metrics</title>'',
      ''    <style>'',
      ''        body {'',
      ''            font-family: '' @ [CHR 0x27] @ ''Segoe UI'' @ [CHR 0x27] @ '', Tahoma, Geneva, Verdana, sans-serif;'',
      ''            max-width: 900px;'',
      ''            margin: 40px auto;'',
      ''            padding: 20px;'',
      ''            background: #f5f5f5;'',
      ''        }'',
      ''        .container {'',
      ''            background: white;'',
      ''            padding: 30px;'',
      ''            border-radius: 8px;'',
      ''            box-shadow: 0 2px 4px rgba(0,0,0,0.1);'',
      ''        }'',
      ''        h1 {'',
      ''            color: #333;'',
      ''            border-bottom: 3px solid #4a90e2;'',
      ''            padding-bottom: 10px;'',
      ''        }'',
      ''        h2 {'',
      ''            color: #555;'',
      ''            margin-top: 30px;'',
      ''        }'',
      ''        .endpoint {'',
      ''            background: #f8f9fa;'',
      ''            padding: 15px;'',
      ''            margin: 10px 0;'',
      ''            border-left: 4px solid #4a90e2;'',
      ''            border-radius: 4px;'',
      ''        }'',
      ''        .endpoint a {'',
      ''            color: #4a90e2;'',
      ''            text-decoration: none;'',
      ''            font-weight: bold;'',
      ''            font-size: 16px;'',
      ''        }'',
      ''        .endpoint a:hover {'',
      ''            text-decoration: underline;'',
      ''        }'',
      ''        .endpoint p {'',
      ''            margin: 5px 0 0 0;'',
      ''            color: #666;'',
      ''        }'',
      ''        .metrics-preview {'',
      ''            background: #f8f9fa;'',
      ''            padding: 15px;'',
      ''            margin: 20px 0;'',
      ''            border-radius: 4px;'',
      ''            font-family: monospace;'',
      ''            white-space: pre-wrap;'',
      ''            font-size: 12px;'',
      ''        }'',
      ''        .footer {'',
      ''            margin-top: 40px;'',
      ''            text-align: center;'',
      ''            color: #999;'',
      ''            font-size: 14px;'',
      ''        }'',
      ''    </style>'',
      ''</head>'',
      ''<body>'',
      ''    <div class="container">'',
      ''        <h1>'' @ [CHR 0xF0, CHR 0x9F, CHR 0x94, CHR 0xA7] @ '' PeerVault Metrics Server</h1>'',
      ''        <p>Welcome to the PeerVault metrics interface. This server exposes various metrics about the PeerVault node.</p>'',
      [],
      ''        <h2>Available Endpoints:</h2>'',
      [],
      ''        <div class="endpoint">'',
      ''            <a href="/metrics">/metrics</a>'',
      ''            <p>Metrics in Prometheus format (suitable for scraping with Prometheus)</p>'',
      ''        </div>'',
      [],
      ''        <div class="endpoint">'',
      ''            <a href="/metrics/json">/metrics/json</a>'',
      ''            <p>Metrics in JSON format (suitable for programmatic access)</p>'',
      ''        </div>'',
      [],
      ''        <div class="endpoint">'',
      ''            <a href="/metrics/human">/metrics/human</a>'',
      ''            <p>Metrics in human-readable format</p>'',
      ''        </div>'',
      [],
      ''        <div class="endpoint">'',
      ''            <a href="/health">/health</a>'',
      ''            <p>Health check endpoint</p>'',
      ''        </div>'',
      [],
      ''        <h2>Quick Preview:</h2>'',
      ''        <div class="metrics-preview">'']\<close>

definition page_foot :: "string list" where
  \<open>page_foot =
     [''</div>'',
      [],
      ''        <div class="footer">'',
      ''            <p>PeerVault - Distributed P2P File Storage</p>'',
      ''        </div>'',
      ''    </div>'',
      ''</body>'',
      ''</html>'']\<close>

definition handleRoot :: "Metrics \<Rightarrow> response" where
  "handleRoot m =
     \<lparr>ContentType = ''text/html'', StatusCode = 200,
      Body = lines_of page_head @ escapeHTML (GetSummary m) @ lines_of page_foot\<rparr>"

text \<open>The patterns of the mux, for a clean path: exact paths, and the root pattern for everything else.\<close>

definition serve :: "(string \<Rightarrow> int \<Rightarrow> string) \<Rightarrow> int \<Rightarrow> Metrics \<Rightarrow> string \<Rightarrow> response go" where
  "serve tf now m url =
     (if url = ''/metrics'' then Return (handleMetrics now m)
      else if url = ''/metrics/json'' then Return (handleMetricsJSON tf now m)
      else if url = ''/metrics/human'' then handleMetricsHuman tf now m
      else if url = ''/health'' then Return (handleHealth now m)
      else Return (handleRoot m))"

text \<open>
  The server itself: the address, and the HTTP server once it is made.  \<open>ListenAndServe\<close> returns when
  listening fails or the server was closed; the outcome is given.
\<close>

datatype http_state = Serving | ServerClosed

record MetricsServer =
  ms_addr :: string
  ms_server :: "http_state option"

definition NewMetricsServer :: "string \<Rightarrow> MetricsServer" where
  "NewMetricsServer addr = \<lparr>ms_addr = addr, ms_server = None\<rparr>"

definition ms_Start :: "(string \<Rightarrow> error option) \<Rightarrow> MetricsServer \<Rightarrow> MetricsServer \<times> error option" where
  "ms_Start listenAndServe ms = (ms\<lparr>ms_server := Some Serving\<rparr>, listenAndServe (ms_addr ms))"

definition ms_Stop :: "MetricsServer \<Rightarrow> MetricsServer" where
  "ms_Stop ms =
     (case ms_server ms of
        None \<Rightarrow> ms
      | Some _ \<Rightarrow> ms\<lparr>ms_server := Some ServerClosed\<rparr>)"

section \<open>HTML escaping\<close>

definition esc_char :: "char \<Rightarrow> string" where
  "esc_char c =
     (if c = CHR ''&'' then ''&amp;'' else if c = CHR ''<'' then ''&lt;''
      else if c = CHR ''>'' then ''&gt;'' else if c = CHR 0x22 then ''&quot;''
      else if c = CHR 0x27 then ''&#39;'' else [c])"

lemma ReplaceAll_simps [simp]:
  "ReplaceAll [] c t = []"
  "ReplaceAll (x # s) c t = (if x = c then t else [x]) @ ReplaceAll s c t"
  "ReplaceAll (s @ s') c t = ReplaceAll s c t @ ReplaceAll s' c t"
  by (simp_all add: ReplaceAll_def)

lemma escapeHTML_eq: "escapeHTML s = concat (map esc_char s)"
proof (induction s)
  case Nil
  show ?case by (simp add: escapeHTML_def)
next
  case (Cons c s)
  have "escapeHTML (c # s) = esc_char c @ escapeHTML s"
    by (simp add: escapeHTML_def esc_char_def Let_def)
  with Cons show ?case by simp
qed

lemma escapeHTML_safe: "c \<in> set (escapeHTML s) \<Longrightarrow> c \<notin> {CHR ''<'', CHR ''>'', CHR 0x22, CHR 0x27}"
  by (auto simp: escapeHTML_eq esc_char_def split: if_splits)

lemma esc_char_prefix: "esc_char c @ x = esc_char d @ y \<Longrightarrow> c = d \<and> x = y"
  by (auto simp: esc_char_def split: if_splits)

lemma esc_char_not_Nil: "esc_char c \<noteq> []"
  by (simp add: esc_char_def)

lemma escapeHTML_inj: "escapeHTML s = escapeHTML t \<Longrightarrow> s = t"
proof (induction s arbitrary: t)
  case Nil
  then show ?case by (cases t) (simp_all add: escapeHTML_eq esc_char_not_Nil)
next
  case (Cons c s)
  then obtain d t' where t: "t = d # t'"
    by (cases t) (simp_all add: escapeHTML_eq esc_char_not_Nil)
  have "esc_char c @ escapeHTML s = esc_char d @ escapeHTML t'"
    using Cons.prems t by (simp add: escapeHTML_eq)
  from esc_char_prefix [OF this] Cons.IH t show ?case by simp
qed

text \<open>What the metrics contribute to the root page holds no markup.\<close>

definition markup :: "char \<Rightarrow> bool" where
  "markup c \<longleftrightarrow> c \<in> {CHR ''<'', CHR ''>'', CHR 0x22, CHR 0x27}"

lemma escapeHTML_no_markup: "filter markup (escapeHTML s) = []"
  using escapeHTML_safe by (auto simp: filter_empty_conv markup_def)

lemma handleRoot_markup:
  "filter markup (Body (handleRoot m)) = filter markup (lines_of page_head) @ filter markup (lines_of page_foot)"
  by (simp add: handleRoot_def escapeHTML_no_markup)

end
