(* ===== verification/Cli.thy ===== *)
theory Cli
  imports Config Discovery PeerExchange MetricsServer
begin

text \<open>
  The command line (\<open>cmd/peervault/main.go\<close>): building the server, the commands of the interactive
  mode, start-up and shut-down.  Standard input is the list of its lines, standard output a list of
  the lines printed; an error is printed as a value.
\<close>

section \<open>Making a server\<close>

definition storage_root :: "string \<Rightarrow> string" where
  "storage_root listenAddr = ''storage/node_'' @ ReplaceAll listenAddr (CHR '':'') ''port_''"

definition makeServer ::
    "json \<Rightarrow> entropy \<Rightarrow> int \<Rightarrow> fs \<Rightarrow> string \<Rightarrow> bytes \<Rightarrow> int \<Rightarrow> int \<Rightarrow> int \<Rightarrow> int \<Rightarrow> string list \<Rightarrow> FileServer option" where
  "makeServer J rnd now fs listenAddr networkKey fetchTimeout pexInterval gcInterval gcDelay bootstrap =
     NewFileServer J
       \<lparr>o_ID = [], o_EncKey = networkKey, o_StorageRoot = storage_root listenAddr,
        o_PathTransformFunc = Some CASPathTransformFunc,
        o_Transport = NewTCPTransport
          \<lparr>ListenAddr = listenAddr, DialTimeout = 10 * sec, MaxRetries = 3, RetryDelay = 2 * sec\<rparr>,
        o_BootstrapNodes = bootstrap, o_FetchTimeout = fetchTimeout, o_PexInterval = pexInterval,
        o_GCInterval = gcInterval, o_GCDelay = gcDelay\<rparr> rnd now fs"

section \<open>Printing\<close>

text \<open>A line, an error with its format, or text that ends no line.\<close>

datatype out = Say string | Fail string error | Text string

text \<open>\<open>utf8.RuneCountInString\<close>, which the width of \<open>%-35s\<close> counts: an invalid byte is one rune.\<close>

definition cont_byte :: "nat \<Rightarrow> nat \<Rightarrow> string \<Rightarrow> bool" where
  "cont_byte lo hi s = (case s of [] \<Rightarrow> False | c # _ \<Rightarrow> lo \<le> of_char c \<and> of_char c \<le> hi)"

definition rune_len :: "nat \<Rightarrow> string \<Rightarrow> nat" where
  "rune_len b s =
     (if 0xC2 \<le> b \<and> b \<le> 0xDF \<and> cont_byte 0x80 0xBF s then 2
      else if 0xE0 \<le> b \<and> b \<le> 0xEF \<and>
              cont_byte (if b = 0xE0 then 0xA0 else 0x80) (if b = 0xED then 0x9F else 0xBF) s \<and>
              cont_byte 0x80 0xBF (drop 1 s) then 3
      else if 0xF0 \<le> b \<and> b \<le> 0xF4 \<and>
              cont_byte (if b = 0xF0 then 0x90 else 0x80) (if b = 0xF4 then 0x8F else 0xBF) s \<and>
              cont_byte 0x80 0xBF (drop 1 s) \<and> cont_byte 0x80 0xBF (drop 2 s) then 4
      else 1)"

fun rune_count :: "string \<Rightarrow> nat" where
  "rune_count [] = 0"
| "rune_count (c # s) = Suc (rune_count (drop (rune_len (of_char c) s - 1) s))"

definition pad_right :: "nat \<Rightarrow> string \<Rightarrow> string" where
  "pad_right w s = s @ replicate (w - rune_count s) (CHR '' '')"

definition pad_left :: "nat \<Rightarrow> string \<Rightarrow> string" where
  "pad_left w s = replicate (w - rune_count s) (CHR '' '') @ s"

text \<open>Box-drawing characters, as the bytes of their UTF-8 encoding.\<close>

definition box :: "nat \<Rightarrow> string" where
  "box n = [CHR 0xE2, CHR 0x94, char_of n]"

definition rule_line :: "nat \<Rightarrow> nat \<Rightarrow> nat \<Rightarrow> nat list \<Rightarrow> string" where
  "rule_line l m r widths =
     box l @ str_join (box m) (map (\<lambda>w. concat (replicate w (box 0x80))) widths) @ box r"

definition table_row :: "string list \<Rightarrow> string" where
  "table_row cells = box 0x82 @ '' '' @ str_join ('' '' @ box 0x82 @ '' '') cells @ '' '' @ box 0x82"

definition shorten :: "nat \<Rightarrow> nat \<Rightarrow> string \<Rightarrow> string" where
  "shorten limit keep s = (if length s > limit then take keep s @ ''...'' else s)"

section \<open>The interactive mode\<close>

text \<open>
  What a command needs besides the server: what the network did before it, clock, entropy, the
  context, the address of the machine, and how a wait for the network ends (the server when it ends,
  and what ended it).
\<close>

record app =
  server :: FileServer
  discovery :: "DiscoveryService option"
  metrics_server :: "MetricsServer option"

record cli_env =
  ce_net :: "app \<Rightarrow> app"
  ce_clock :: string
  ce_now :: int
  ce_fmt :: "string \<Rightarrow> int \<Rightarrow> string"
  ce_rnd :: entropy
  ce_done :: bool
  ce_cancel :: "(nat \<times> error) option"
  ce_await :: "FileServer \<Rightarrow> nat \<Rightarrow> FileServer \<times> wake"
  ce_ip :: string

definition quote :: "string \<Rightarrow> string" where
  "quote s = CHR 0x27 # s @ [CHR 0x27]"

definition cmd_store :: "gob \<Rightarrow> json \<Rightarrow> cli_env \<Rightarrow> string \<Rightarrow> FileServer \<Rightarrow> FileServer \<times> out list" where
  "cmd_store G J E filename s =
     (case Store G J s (ce_rnd E) (ce_done E) filename
             (bytes_reader (str_bytes (''Sample data for file: '' @ filename @ '' (stored at '' @ ce_clock E @ '')''))) of
        (s', Some e) \<Rightarrow> (s', [Fail ''Error storing file: %v'' e])
      | (s', None) \<Rightarrow> (s', [Say (''File '' @ quote filename @ '' stored successfully'')]))"

text \<open>A retrieval, from the disk or after the wait for the network.\<close>

definition fetch :: "gob \<Rightarrow> cli_env \<Rightarrow> string \<Rightarrow> FileServer \<Rightarrow> FileServer \<times> reader result" where
  "fetch G E key s =
     (case Get G s (ce_cancel E) key of
        (s', Served r) \<Rightarrow> (s', r)
      | (s', Waiting_on ch) \<Rightarrow> (case ce_await E s' ch of (s2, w) \<Rightarrow> (s2, get_resume s2 (ce_cancel E) key w)))"

definition cmd_get :: "gob \<Rightarrow> cli_env \<Rightarrow> string \<Rightarrow> FileServer \<Rightarrow> FileServer \<times> out list" where
  "cmd_get G E filename s =
     (case fetch G E filename s of
        (s', Inl e) \<Rightarrow> (s', [Fail ''Error retrieving file: %v'' e])
      | (s', Inr r) \<Rightarrow>
          (s', [case ReadAll r of Inl e \<Rightarrow> Fail ''Error reading file: %v'' e
                | Inr d \<Rightarrow> Say (''File content: '' @ bytes_str d)]))"

definition confirmed :: "string \<Rightarrow> bool" where
  "confirmed line \<longleftrightarrow> TrimSpace (ToLower line) = ''y'' \<or> TrimSpace (ToLower line) = ''yes''"

definition cmd_delete :: "string \<Rightarrow> string list \<Rightarrow> FileServer \<Rightarrow> FileServer \<times> out list" where
  "cmd_delete filename ls s =
     (let ask = Text (''Are you sure you want to delete '' @ quote filename @ ''? This will remove it from all nodes. (y/N): '')
      in case ls of
           [] \<Rightarrow> (s, [ask])
         | line # _ \<Rightarrow>
             if \<not> confirmed line then (s, [ask, Say ''Deletion cancelled''])
             else case server_Delete s filename of
               (s', Some e) \<Rightarrow> (s', [ask, Fail ''Error deleting file: %v'' e])
             | (s', None) \<Rightarrow> (s', [ask, Say (''File '' @ quote filename @ '' deleted successfully from all nodes'')]))"

text \<open>
  \<open>strings.Repeat\<close> panics for a negative count.  The storage root that \<open>quota\<close> measures is the one the
  quota manager was made with.
\<close>

definition repeat_str :: "string \<Rightarrow> int \<Rightarrow> string go" where
  "repeat_str s n = (if n < 0 then Panic ''strings: negative Repeat count'' else Return (concat (replicate (nat n) s)))"

definition quota_percentage :: "int \<Rightarrow> int \<Rightarrow> rat" where
  "quota_percentage used tot = (if tot > 0 then f64 (f64 (f64 (of_int used) / f64 (of_int tot)) * 100) else 0)"

definition used_bars :: "rat \<Rightarrow> int" where
  "used_bars percentage = trunc64 (f64 (f64 (percentage / 100) * 50))"

definition cmd_quota :: "FileServer \<Rightarrow> out list go option" where
  "cmd_quota s =
     (case GetStorageStats (QuotaMgr s) (disk s) (qm_storageRoot (QuotaMgr s)) of
        None \<Rightarrow> None
      | Some (Inl e) \<Rightarrow> Some (Return [Fail ''Error getting storage stats: %v'' e])
      | Some (Inr (used, tot, available)) \<Rightarrow>
         (let percentage = quota_percentage used tot; bars = used_bars percentage
          in Some (
            case FormatBytes used of Panic x \<Rightarrow> Panic x | Return u \<Rightarrow>
            case FormatBytes tot of Panic x \<Rightarrow> Panic x | Return t \<Rightarrow>
            case FormatBytes available of Panic x \<Rightarrow> Panic x | Return a \<Rightarrow>
            case repeat_str [CHR 0xE2, CHR 0x96, CHR 0x88] bars of Panic x \<Rightarrow> Panic x | Return full \<Rightarrow>
            case repeat_str [CHR 0xE2, CHR 0x96, CHR 0x91] (50 - bars) of Panic x \<Rightarrow> Panic x | Return rest \<Rightarrow>
            Return [Say '''', Say ''=== Storage Quota ==='', Say (''Used:      '' @ u), Say (''Total:     '' @ t),
              Say (''Available: '' @ a), Say (''Usage:     '' @ fmt_f 1 percentage @ ''%''),
              Say (''['' @ full @ rest @ ''] '' @ fmt_f 1 percentage @ ''%'')])))"

definition mdns_report :: "DiscoveryService option \<Rightarrow> out list" where
  "mdns_report d =
     (case d of
        Some ds \<Rightarrow>
          Say (''mDNS Discovered Peers: '' @ Itoa (int (length (GetDiscoveredPeers ds)))) #
          map (\<lambda>p. Say (''  - '' @ p)) (GetDiscoveredPeers ds) @ [Say '''']
      | None \<Rightarrow> [Say ''mDNS Discovery: Disabled'', Say ''  (use -discover-local flag to enable)'', Say ''''])"

definition pex_report :: "int \<Rightarrow> PeerExchangeService \<Rightarrow> out list" where
  "pex_report now pex =
     (if pex_Enabled pex then
        (let known = ExportPeerList pex
         in Say (''PEX Known Peers: '' @ Itoa (int (length known))) #
            map (\<lambda>(source, n). Say (''  '' @ source @ '': '' @ Itoa (int n) @ '' peers'')) (GetPeersBySource pex) @
            (if length known > 0 \<and> length known \<le> 10 then
               [Say '''', Say ''Peer List:''] @
               map (\<lambda>p. Say (''  - '' @ pi_Address p @ '' (via '' @ pi_Source p @ '', last seen: '' @
                              sec_str (round_sec (now - pi_LastSeen p)) @ '' ago)'')) known
             else []))
      else [Say ''Peer Exchange (PEX): Disabled'', Say ''  (use -discover-pex flag to enable)''])"

definition cmd_discover :: "int \<Rightarrow> app \<Rightarrow> out list" where
  "cmd_discover now a =
     [Say '''', Say ''=== Peer Discovery Status ==='']  @ mdns_report (discovery a) @ pex_report now (Pex (server a))"

definition cmd_status :: "string \<Rightarrow> FileServer \<Rightarrow> out list" where
  "cmd_status ip s =
     [Say (''Server listening on: '' @ Addr (Transport s)), Say (''Local IP: '' @ ip),
      Say (''Connected peers: '' @ Itoa (int (length (Peers s))))] @
     map (\<lambda>(addr, _). Say (''  - '' @ addr)) (Peers s)"

definition file_row :: "FileInfo \<Rightarrow> out" where
  "file_row f =
     Say (table_row [pad_right 35 (shorten 35 32 (fi_Key f)), pad_left 11 (Itoa (int (fi_Size f))),
                     pad_right 20 (if length (fi_Hash f) > 8 then take 8 (fi_Hash f) else fi_Hash f)])"

definition list_own :: "FileInfo list \<Rightarrow> out list" where
  "list_own files =
     (if files = [] then [Say ''No files stored on this node'']
      else [Say (''Files stored on this node ('' @ Itoa (int (length files)) @ '' files):''),
            Say (rule_line 0x8C 0xAC 0x90 [37, 13, 22]),
            Say (box 0x82 @ pad_right 37 '' Filename'' @ box 0x82 @ '' Size (bytes)'' @ box 0x82 @ '' Hash (first 8 chars) '' @ box 0x82),
            Say (rule_line 0x9C 0xBC 0xA4 [37, 13, 22])] @
           map file_row files @ [Say (rule_line 0x94 0xB4 0x98 [37, 13, 22])])"

text \<open>The nodes other than this one; a short identifier cannot be cut to eight characters.\<close>

fun list_others :: "string \<Rightarrow> (string \<times> FileInfo list) list \<Rightarrow> out list go" where
  "list_others self [] = Return []"
| "list_others self ((nodeID, files) # ns) =
     (if nodeID \<noteq> self \<and> length files > 0 then
        (if length nodeID < 8 then Panic ''slice bounds out of range''
         else case list_others self ns of
           Panic x \<Rightarrow> Panic x
         | Return rest \<Rightarrow>
             Return (Say (''  Node '' @ take 8 nodeID @ '' ('' @ Itoa (int (length files)) @ '' files):'') #
                     map (\<lambda>f. Say (''    - '' @ fi_Key f @ '' ('' @ Itoa (int (fi_Size f)) @ '' bytes)'')) files @ rest))
      else list_others self ns)"

definition ListFiles :: "FileServer \<Rightarrow> string \<Rightarrow> (FileInfo list go \<times> error option) option" where
  "ListFiles s nid = store_List (srv_store s) (disk s) nid"

definition ListAllFiles :: "FileServer \<Rightarrow> ((string \<times> FileInfo list) list go \<times> error option) option" where
  "ListAllFiles s = store_ListAll (srv_store s) (disk s)"

definition ReadFile :: "FileServer \<Rightarrow> string \<Rightarrow> string \<Rightarrow> (nat \<times> reader) result" where
  "ReadFile s nid key = store_Read (srv_store s) (disk s) nid key"

definition cmd_list :: "FileServer \<Rightarrow> out list go option" where
  "cmd_list s =
     (case ListFiles s (srv_ID s) of
        None \<Rightarrow> None
      | Some (Panic x, _) \<Rightarrow> Some (Panic x)
      | Some (Return _, Some e) \<Rightarrow> Some (Return [Fail ''Error listing files: %v'' e])
      | Some (Return files, None) \<Rightarrow>
         (case ListAllFiles s of
            None \<Rightarrow> None
          | Some (Panic x, _) \<Rightarrow> Some (Panic x)
          | Some (Return all, Some e) \<Rightarrow> Some (Return (list_own files))
          | Some (Return all, None) \<Rightarrow>
              Some (if length all > 1 then
                      (case list_others (srv_ID s) all of
                         Panic x \<Rightarrow> Panic x
                       | Return rest \<Rightarrow> Return (list_own files @ [Say '''', Say ''Files from other nodes:''] @ rest))
                    else Return (list_own files))))"

definition cmd_peers :: "FileServer \<Rightarrow> out list" where
  "cmd_peers s =
     (if Peers s = [] then [Say ''No peers connected'']
      else [Say (''Connected Peers ('' @ Itoa (int (length (Peers s))) @ ''):''),
            Say (rule_line 0x8C 0xAC 0x90 [31, 13, 16]),
            Say (table_row [pad_right 29 ''Address'', pad_right 11 ''Status'', pad_right 14 ''Last Seen'']),
            Say (rule_line 0x9C 0xBC 0xA4 [31, 13, 16])] @
           map (\<lambda>(addr, _). Say (table_row [pad_right 29 (shorten 29 26 addr), pad_right 11 ''Connected'', pad_right 14 ''Now''])) (Peers s) @
           [Say (rule_line 0x94 0xB4 0x98 [31, 13, 16])])"

definition no_peer :: "string \<Rightarrow> out" where
  "no_peer peerAddr = Say (''Peer '' @ peerAddr @ '' not found. Use '' @ quote ''peers'' @ '' command to see connected peers.'')"

definition cmd_send :: "gob \<Rightarrow> string \<Rightarrow> string \<Rightarrow> FileServer \<Rightarrow> FileServer \<times> out list" where
  "cmd_send G filename peerAddr s =
     (case map_of (Peers s) peerAddr of
        None \<Rightarrow> (s, [no_peer peerAddr])
      | Some peer \<Rightarrow>
         (case ReadFile s (srv_ID s) filename of
            Inl e \<Rightarrow> (s, [Fail ''Error reading file: %v'' e])
          | Inr _ \<Rightarrow>
             (let sending = Say (''Sending '' @ quote filename @ '' to '' @ peerAddr @ ''...'')
              in case enc_msg G (MessageStoreFile (srv_ID s) (HashKey filename) 0) of
                   Inl e \<Rightarrow> (s, [sending, Fail ''Error encoding message: %v'' e])
                 | Inr buf \<Rightarrow>
                    (case Send peer [IncomingMessage] of (p1, _) \<Rightarrow>
                     case Send p1 buf of (p2, err) \<Rightarrow>
                       (s\<lparr>Peers := AList.update peerAddr p2 (Peers s)\<rparr>,
                        [sending, case err of Some e \<Rightarrow> Fail ''Error sending to peer: %v'' e
                                  | None \<Rightarrow> Say (''File '' @ quote filename @ '' sent to '' @ peerAddr)])))))"

definition cmd_fetch :: "gob \<Rightarrow> cli_env \<Rightarrow> string \<Rightarrow> string \<Rightarrow> FileServer \<Rightarrow> FileServer \<times> out list" where
  "cmd_fetch G E filename peerAddr s =
     (case map_of (Peers s) peerAddr of
        None \<Rightarrow> (s, [no_peer peerAddr])
      | Some _ \<Rightarrow>
         (let fetching = Say (''Fetching '' @ quote filename @ '' from '' @ peerAddr @ ''...'')
          in case fetch G E filename s of
               (s', Inl e) \<Rightarrow> (s', [fetching, Fail ''Error fetching file: %v'' e])
             | (s', Inr r) \<Rightarrow>
                (case ReadAll r of
                   Inl e \<Rightarrow> (s', [fetching, Fail ''Error reading file data: %v'' e])
                 | Inr d \<Rightarrow>
                     (s', [fetching,
                       Say (''File '' @ quote filename @ '' fetched successfully ('' @ Itoa (int (length d)) @ '' bytes)''),
                       if length d < 500 then Say (''Contents: '' @ bytes_str d)
                       else Say (''Contents (first 500 bytes): '' @ bytes_str (take 500 d) @ ''...'')]))))"

text \<open>\<open>clean\<close>: the flag says whether the mode is left.\<close>

definition cmd_clean :: "json \<Rightarrow> string list \<Rightarrow> FileServer \<Rightarrow> (FileServer \<times> out list \<times> bool) go" where
  "cmd_clean J ls s =
     (let ask = Text ''Are you sure you want to delete all local files? (y/N): '';
          stopped = Say ''Server stopped. Please restart to continue.''
      in case ls of
           [] \<Rightarrow> Return (s, [ask], False)
         | line # _ \<Rightarrow>
             if \<not> confirmed line then Return (s, [ask, Say ''Clean operation cancelled''], False)
             else case Stop s of
               Panic x \<Rightarrow> Panic x
             | Return s1 \<Rightarrow>
                (case ClearStorage s1 of
                   (s2, Some e) \<Rightarrow> Return (s2, [ask, Fail ''Error cleaning storage: %v'' e, stopped], True)
                 | (s2, None) \<Rightarrow>
                     Return (ClearKeyMapping J s2, [ask, Say ''Local storage cleaned successfully'', stopped], True)))"

text \<open>
  One command: the new state, how many further lines it read, what it printed, and whether the mode
  goes on.
\<close>

definition with_server :: "app \<Rightarrow> FileServer \<times> out list \<Rightarrow> (app \<times> nat \<times> out list \<times> bool) go option" where
  "with_server a r = Some (Return (a\<lparr>server := fst r\<rparr>, 0, snd r, True))"

definition printing :: "app \<Rightarrow> out list go option \<Rightarrow> (app \<times> nat \<times> out list \<times> bool) go option" where
  "printing a r =
     (case r of
        None \<Rightarrow> None
      | Some (Panic x) \<Rightarrow> Some (Panic x)
      | Some (Return ls) \<Rightarrow> Some (Return (a, 0, ls, True)))"

definition usage :: "app \<Rightarrow> string list \<Rightarrow> (app \<times> nat \<times> out list \<times> bool) go option" where
  "usage a ls = Some (Return (a, 0, map Say ls, True))"

definition run_command ::
    "gob \<Rightarrow> json \<Rightarrow> cli_env \<Rightarrow> string list \<Rightarrow> string list \<Rightarrow> app \<Rightarrow> (app \<times> nat \<times> out list \<times> bool) go option" where
  "run_command G J E parts ls a =
     (let command = hd parts
      in if command = ''store'' then
           (if length parts < 2 then usage a [''Usage: store <filename>'']
            else with_server a (cmd_store G J E (parts ! 1) (server a)))
         else if command = ''get'' then
           (if length parts < 2 then usage a [''Usage: get <filename>'']
            else with_server a (cmd_get G E (parts ! 1) (server a)))
         else if command = ''delete'' then
           (if length parts < 2 then usage a [''Usage: delete <filename>'']
            else case cmd_delete (parts ! 1) ls (server a) of
              (s', os) \<Rightarrow> Some (Return (a\<lparr>server := s'\<rparr>, 1, os, True)))
         else if command = ''quota'' then printing a (cmd_quota (server a))
         else if command = ''metrics'' then
           printing a (Some (case ToHumanFormat (ce_fmt E) (ce_now E) (srv_Metrics (server a)) of
             Panic x \<Rightarrow> Panic x | Return txt \<Rightarrow> Return [Text txt]))
         else if command = ''discover'' then printing a (Some (Return (cmd_discover (ce_now E) a)))
         else if command = ''status'' then printing a (Some (Return (cmd_status (ce_ip E) (server a))))
         else if command = ''list'' then printing a (cmd_list (server a))
         else if command = ''peers'' then printing a (Some (Return (cmd_peers (server a))))
         else if command = ''send'' then
           (if length parts < 3
            then usage a [''Usage: send <filename> <peer_address>'', ''Example: send myfile.txt 192.168.1.100:3000'']
            else with_server a (cmd_send G (parts ! 1) (parts ! 2) (server a)))
         else if command = ''fetch'' then
           (if length parts < 3
            then usage a [''Usage: fetch <filename> <peer_address>'', ''Example: fetch myfile.txt 192.168.1.100:3000'']
            else with_server a (cmd_fetch G E (parts ! 1) (parts ! 2) (server a)))
         else if command = ''clean'' then
           (case cmd_clean J ls (server a) of
              Panic x \<Rightarrow> Some (Panic x)
            | Return (s', os, leave) \<Rightarrow> Some (Return (a\<lparr>server := s'\<rparr>, 1, os, \<not> leave)))
         else if command = ''quit'' \<or> command = ''exit'' then
           (case Stop (server a) of
              Panic x \<Rightarrow> Some (Panic x)
            | Return s' \<Rightarrow> Some (Return (a\<lparr>server := s'\<rparr>, 0, [Say ''Shutting down...''], False)))
         else usage a [''Unknown command: '' @ command])"

text \<open>The loop over the lines of the input; every turn begins with a prompt.\<close>

function read_loop ::
    "gob \<Rightarrow> json \<Rightarrow> (nat \<Rightarrow> cli_env) \<Rightarrow> nat \<Rightarrow> string list \<Rightarrow> app \<Rightarrow> (app \<times> out list) go option" where
  "read_loop G J E n [] a = Some (Return (a, [Text ''PeerVault> '']))"
| "read_loop G J E n (line # ls) a =
     (let input = TrimSpace line; turn = (\<lambda>r. case r of Some (Return (a2, os')) \<Rightarrow> Some (Return (a2, Text ''PeerVault> '' # os')) | r \<Rightarrow> r)
      in if input = [] then turn (read_loop G J E n ls a)
         else turn (case run_command G J (E n) (split (CHR '' '') input) ls (ce_net (E n) a) of
           None \<Rightarrow> None
         | Some (Panic x) \<Rightarrow> Some (Panic x)
         | Some (Return (a1, k, os, goes_on)) \<Rightarrow>
             if \<not> goes_on then Some (Return (a1, os))
             else case read_loop G J E (n + 1) (drop k ls) a1 of
               Some (Return (a2, os')) \<Rightarrow> Some (Return (a2, os @ os'))
             | r \<Rightarrow> r))"
  by pat_completeness auto

termination
  by (relation "measure (\<lambda>(G, J, E, n, ls, a). length ls)") auto

declare read_loop.simps [simp del]

definition banner :: "out list" where
  "banner = map Say
     [[], ''=== PeerVault Interactive Mode ==='', ''Commands:'',
      ''  store <filename>  - Store a file with sample data'',
      ''  get <filename>    - Retrieve and display a file'',
      ''  delete <filename> - Delete a file from network'',
      ''  list              - List all stored files'',
      ''  quota             - Show storage quota status'',
      ''  metrics           - Show server metrics'',
      ''  status            - Show server and network status'',
      ''  peers             - Show connected peers'',
      ''  discover          - Show discovered peers (mDNS/PEX)'',
      ''  send <file> <peer> - Send file to specific peer'',
      ''  fetch <key> <peer> - Fetch file from specific peer'',
      ''  clean             - Clean local storage'',
      ''  quit              - Exit PeerVault'', []]"

definition interactiveMode ::
    "gob \<Rightarrow> json \<Rightarrow> (nat \<Rightarrow> cli_env) \<Rightarrow> string list \<Rightarrow> app \<Rightarrow> (app \<times> out list) go option" where
  "interactiveMode G J E ls a =
     (case read_loop G J E 0 ls a of Some (Return (a', os)) \<Rightarrow> Some (Return (a', banner @ os)) | r \<Rightarrow> r)"

section \<open>Start-up and shut-down\<close>

text \<open>The key: sixty-four hexadecimal digits are decoded, everything else is taken as its bytes.\<close>

definition network_key :: "string \<Rightarrow> bytes option" where
  "network_key keySource =
     (if keySource = [] then None
      else let k = (if length keySource = 64 then
                      (case DecodeString keySource of Inr d \<Rightarrow> d | Inl _ \<Rightarrow> str_bytes keySource)
                    else str_bytes keySource)
           in if length k \<noteq> 32 then None else Some k)"

definition advertise :: "Config \<Rightarrow> string \<Rightarrow> string result \<Rightarrow> string" where
  "advertise cfg localIP publicIP =
     (let built = (\<lambda>ip. case BuildAdvertiseAddr ip (cfg_ListenAddr cfg) of Inl _ \<Rightarrow> [] | Inr a \<Rightarrow> a)
      in if cfg_AdvertiseAddr cfg \<noteq> [] then cfg_AdvertiseAddr cfg
         else if cfg_DetectPublicIP cfg then (case publicIP of Inl _ \<Rightarrow> built localIP | Inr ip \<Rightarrow> built ip)
         else built localIP)"

definition init_logger :: "Config \<Rightarrow> log_level" where
  "init_logger cfg = logger_New (if cfg_Verbose cfg \<or> cfg_Debug cfg then ''debug'' else cfg_LogLevel cfg)"

text \<open>The result of a phase of \<open>main\<close>: it goes on, or the process exits with a status.\<close>

datatype 'a phase_result = Up 'a | Exit nat

definition override_quota :: "string \<Rightarrow> int phase_result" where
  "override_quota quotaStr =
     (if quotaStr = [] then Up 0
      else case ParseStorageSize quotaStr of Inl _ \<Rightarrow> Exit 1 | Inr n \<Rightarrow> Up n)"

definition save_quota :: "qjson \<Rightarrow> QuotaManager \<Rightarrow> int \<Rightarrow> fs \<Rightarrow> (QuotaManager \<times> fs) phase_result" where
  "save_quota QJ qm n fs =
     (case quota_Save QJ (SetMaxStorage qm n) fs of
        (fs', Some _) \<Rightarrow> Exit 1
      | (fs', None) \<Rightarrow> Up (SetMaxStorage qm n, fs'))"

definition init_quota ::
    "qjson \<Rightarrow> bool \<Rightarrow> string list \<Rightarrow> int \<Rightarrow> QuotaManager \<Rightarrow> fs \<Rightarrow> (QuotaManager \<times> fs) phase_result go" where
  "init_quota QJ tty stdin initialQuota qm fs =
     (case LoadOrCreate QJ qm fs stdin of
        Panic x \<Rightarrow> Panic x
      | Return (qm1, fs1, err) \<Rightarrow>
         (let r = (case err of
             Some _ \<Rightarrow>
               if initialQuota > 0 then save_quota QJ qm1 initialQuota fs1
               else if \<not> tty then save_quota QJ qm1 (10 * 1024 * 1024 * 1024) fs1
               else Exit 1
           | None \<Rightarrow> if initialQuota > 0 then save_quota QJ qm1 initialQuota fs1 else Up (qm1, fs1))
          in case r of
               Exit n \<Rightarrow> Return (Exit n)
             | Up (qm2, fs2) \<Rightarrow>
                 (case FormatBytes (GetMaxStorage qm2) of Panic x \<Rightarrow> Panic x | Return _ \<Rightarrow> Return (Up (qm2, fs2)))))"

text \<open>\<open>isTerminal\<close>: the mode bits of the file, and the bit of a character device.\<close>

definition isTerminal :: "32 word result \<Rightarrow> bool" where
  "isTerminal stat = (case stat of Inl _ \<Rightarrow> False | Inr mode \<Rightarrow> bit mode 21)"

record boot_env =
  be_rnd :: entropy
  be_now :: int
  be_local :: string
  be_public :: "string result"
  be_stat :: "32 word result"
  be_stdin :: "string list"
  be_mdns :: mdns
  be_host :: "string result"
  be_ifaces :: "iface list result"
  be_http :: "string \<Rightarrow> error option"

text \<open>\<open>main\<close> up to the start of the server: the configured application, with its discovery services.\<close>

definition start_up :: "json \<Rightarrow> qjson \<Rightarrow> boot_env \<Rightarrow> Config \<Rightarrow> fs \<Rightarrow> app phase_result go" where
  "start_up J QJ B cfg fs =
     (case network_key (cfg_EncKey cfg) of
        None \<Rightarrow> Return (Exit 1)
      | Some key \<Rightarrow>
         (case makeServer J (be_rnd B) (be_now B) fs (cfg_ListenAddr cfg) key (cfg_FetchTimeout cfg)
                 (cfg_PexInterval cfg) (cfg_GCInterval cfg) (cfg_GCDelay cfg) (cfg_Bootstrap cfg) of
            None \<Rightarrow> Return (Exit 1)
          | Some s \<Rightarrow>
             (case override_quota (cfg_QuotaSize cfg) of
                Exit n \<Rightarrow> Return (Exit n)
              | Up q \<Rightarrow>
                 (case init_quota QJ (isTerminal (be_stat B)) (be_stdin B) q (QuotaMgr s) (disk s) of
                    Panic x \<Rightarrow> Panic x
                  | Return (Exit n) \<Rightarrow> Return (Exit n)
                  | Return (Up (qm, fs')) \<Rightarrow>
                     (let s1 = s\<lparr>QuotaMgr := qm, disk := fs'\<rparr>;
                          d = (if cfg_DiscoverLocal cfg
                               then Some (fst (EnableLocalDiscovery (be_mdns B) (be_host B) (be_ifaces B)
                                             (advertise cfg (be_local B) (be_public B))))
                               else None);
                          s2 = (if cfg_DiscoverPex cfg then EnablePeerExchange s1 else s1);
                          m = (if cfg_MetricsAddr cfg \<noteq> []
                               then Some (fst (ms_Start (be_http B) (NewMetricsServer (cfg_MetricsAddr cfg)))) else None)
                      in Return (Up \<lparr>server = s2, discovery = d, metrics_server = m\<rparr>))))))"

text \<open>The end of \<open>main\<close>: everything is stopped, in this order.\<close>

definition shut_down :: "app \<Rightarrow> app go" where
  "shut_down a =
     (case Stop (server a) of
        Panic x \<Rightarrow> Panic x
      | Return s1 \<Rightarrow>
         (case (case discovery a of
                  None \<Rightarrow> Return None
                | Some d \<Rightarrow> (case ds_Stop d of Panic x \<Rightarrow> Panic x | Return d' \<Rightarrow> Return (Some d'))) of
            Panic x \<Rightarrow> Panic x
          | Return d1 \<Rightarrow>
             (case pex_Stop (Pex s1) of
                Panic x \<Rightarrow> Panic x
              | Return p \<Rightarrow> Return \<lparr>server = s1\<lparr>Pex := p\<rparr>, discovery = d1,
                                      metrics_server = map_option ms_Stop (metrics_server a)\<rparr>)))"

text \<open>The demo mode: five files are stored, then read back.\<close>

definition demo_file :: "nat \<Rightarrow> string" where
  "demo_file i = ''demo_file_'' @ Itoa (int i) @ ''.txt''"

fun demo_stores :: "gob \<Rightarrow> json \<Rightarrow> (nat \<Rightarrow> cli_env) \<Rightarrow> nat list \<Rightarrow> FileServer \<Rightarrow> FileServer" where
  "demo_stores G J E [] s = s"
| "demo_stores G J E (i # is) s =
     (if ce_done (E i) then s
      else demo_stores G J E is (fst (Store G J s (ce_rnd (E i)) False (demo_file i)
             (bytes_reader (str_bytes (''Demo file '' @ Itoa (int i) @ '' content created at '' @ ce_clock (E i)))))))"

fun demo_reads :: "gob \<Rightarrow> (nat \<Rightarrow> cli_env) \<Rightarrow> nat list \<Rightarrow> FileServer \<Rightarrow> FileServer \<times> (string \<times> bytes result) list" where
  "demo_reads G E [] s = (s, [])"
| "demo_reads G E (i # is) s =
     (if ce_done (E i) then (s, [])
      else case fetch G (E i) (demo_file i) s of (s1, r) \<Rightarrow>
        case demo_reads G E is s1 of (s2, rs) \<Rightarrow>
          (s2, (demo_file i, case r of Inl e \<Rightarrow> Inl e | Inr rd \<Rightarrow> Inr (fst (drain rd))) # rs))"

definition demo_mode ::
    "gob \<Rightarrow> json \<Rightarrow> (nat \<Rightarrow> cli_env) \<Rightarrow> (nat \<Rightarrow> cli_env) \<Rightarrow> FileServer \<Rightarrow> FileServer \<times> (string \<times> bytes result) list" where
  "demo_mode G J E E' s = demo_reads G E' [0..<5] (demo_stores G J E [0..<5] s)"

text \<open>
  \<open>main\<close>: configuration, start-up, the chosen mode, shut-down.  \<open>net\<close> is what the network does until the
  mode begins and, without a mode, until a signal; \<open>no_signal\<close> says that no signal came before.  A result of
  \<open>None\<close> is a command that does not return.
\<close>

definition run_mode ::
    "gob \<Rightarrow> json \<Rightarrow> Config \<Rightarrow> (app \<Rightarrow> app) \<Rightarrow> (nat \<Rightarrow> cli_env) \<Rightarrow> (nat \<Rightarrow> cli_env) \<Rightarrow> string list \<Rightarrow> bool \<Rightarrow> app \<Rightarrow> app go option" where
  "run_mode G J cfg net E E' lines no_signal a =
     (let a1 = net a
      in if \<not> no_signal then Some (Return a1)
         else if cfg_Interactive cfg then
           (case interactiveMode G J E lines a1 of
              None \<Rightarrow> None | Some (Panic x) \<Rightarrow> Some (Panic x) | Some (Return (a2, os)) \<Rightarrow> Some (Return a2))
         else if cfg_Demo cfg then
           Some (Return (a1\<lparr>server := fst (demo_mode G J E E' (server a1))\<rparr>))
         else Some (Return a1))"

definition main ::
    "gob \<Rightarrow> json \<Rightarrow> qjson \<Rightarrow> yaml \<Rightarrow> environ \<Rightarrow> Flags \<Rightarrow> boot_env \<Rightarrow> (app \<Rightarrow> app) \<Rightarrow> (nat \<Rightarrow> cli_env) \<Rightarrow> (nat \<Rightarrow> cli_env) \<Rightarrow>
     string list \<Rightarrow> bool \<Rightarrow> fs \<Rightarrow> app phase_result go option" where
  "main G J QJ Y env f B net E E' lines no_signal fs =
     (case LoadConfig Y fs env f of
        Inl _ \<Rightarrow> Some (Return (Exit 1))
      | Inr cfg \<Rightarrow>
         (case start_up J QJ B cfg fs of
            Panic x \<Rightarrow> Some (Panic x)
          | Return (Exit n) \<Rightarrow> Some (Return (Exit n))
          | Return (Up a) \<Rightarrow>
             (case run_mode G J cfg net E E' lines no_signal a of
                None \<Rightarrow> None
              | Some (Panic x) \<Rightarrow> Some (Panic x)
              | Some (Return a1) \<Rightarrow>
                  Some (case shut_down a1 of Panic x \<Rightarrow> Panic x | Return a2 \<Rightarrow> Return (Up a2)))))"

end
