(* ===== verification/ServerFacts.thy ===== *)
theory ServerFacts
  imports PeerExchange
begin

text \<open>
  What the file server guarantees: the wire format of a stream and its reception, storing and reading
  back, the bookkeeping of waiting downloads, and that every operation keeps the store well-formed.
\<close>

section \<open>The invariant\<close>

definition srv_inv :: "FileServer \<Rightarrow> bool" where
  "srv_inv s \<longleftrightarrow> store_inv (srv_store s) (disk s) \<and> valid_id (srv_ID s)"

text \<open>The files of a server, by original key.\<close>

definition holds :: "FileServer \<Rightarrow> string \<Rightarrow> bytes option" where
  "holds s key = vault (srv_store s) (disk s) (srv_ID s, HashKey key)"

lemma srv_invD:
  assumes "srv_inv s"
  shows "store_inv (srv_store s) (disk s)" and "valid_id (srv_ID s)"
  using assms by (simp_all add: srv_inv_def)

section \<open>The wire format\<close>

definition frame_of :: "bytes \<Rightarrow> bytes \<Rightarrow> bytes" where
  "frame_of hdr d = header_size_bytes (length hdr) @ hdr @ d"

lemma Send_ok: "w_err (peer_out p) = None \<Longrightarrow>
    Send p B = (p\<lparr>peer_out := (peer_out p)\<lparr>w_buf := w_buf (peer_out p) @ B\<rparr>\<rparr>, None)"
  by (simp add: Send_def wr_write_def)

lemma Send_err: "w_err (peer_out p) = Some e \<Longrightarrow> Send p B = (p, Some e)"
  by (simp add: Send_def wr_write_def)

lemma sendStream_frame:
  assumes "w_err (peer_out p) = None" and "drain r = (d, None)"
    and "enc_hdr G \<lparr>sh_ID = srv_ID s, sh_Key = key, sh_Size = len\<rparr> = Inr hdr"
  shows "sendStream G s p key len r =
    (p\<lparr>peer_out := (peer_out p)\<lparr>w_buf := w_buf (peer_out p) @ IncomingStream # frame_of hdr d\<rparr>\<rparr>, None)"
  using assms by (simp add: sendStream_def Send_ok copy_to_peer_def frame_of_def)

lemma sendStream_broken:
  "w_err (peer_out p) = Some e \<Longrightarrow> sendStream G s p key len r = (p, Some e)"
  by (simp add: sendStream_def Send_err)

lemma of_le_header_size:
  assumes "len < 2 ^ 15"
  shows "i16 (int (of_le_bytes (header_size_bytes len))) = int len"
proof -
  have "i16 (int len) = int len"
    using assms by (intro i16_id) simp_all
  then have "header_size_bytes len = le_bytes 2 len"
    using assms by (simp add: header_size_bytes_def nat_mod_distrib)
  then have "of_le_bytes (header_size_bytes len) = len"
    using assms by (simp add: of_le_bytes_le_bytes)
  with \<open>i16 (int len) = int len\<close> show ?thesis by simp
qed

lemma length_header_size [simp]: "length (header_size_bytes len) = 2"
  by (simp add: header_size_bytes_def)

lemma drain_rd_rest:
  "drain r = (d, None) \<Longrightarrow> n \<le> length d \<Longrightarrow> drain (rd_rest n r) = (drop n d, None)"
proof (induction r arbitrary: n d rule: drain.induct)
  case (2 b r)
  obtain bs where "drain r = (bs, None)" "d = b @ bs"
    using "2.prems"(1) by (auto split: prod.splits)
  with 2 show ?case by auto
qed auto

section \<open>Receiving\<close>

lemma store_opens_inv:
  assumes "srv_inv s"
  shows "store_opens J (srv_store s) (disk s) (srv_ID s) key"
proof -
  note inv = srv_invD [OF assms]
  obtain fs' where r: "rememberKey J (srv_store s) (disk s) key = (learn (srv_store s) key, fs')"
    "store_inv (learn (srv_store s) key) fs'"
    using rememberKey_put [OF inv(1)] by (metis learn_simps(1))
  obtain fs1 f where "openFileForWriting (learn (srv_store s) key) fs' (srv_ID s) key = (fs1, Inr f)"
    using openFile_put [OF r(2) inv(2)] by metis
  with r(1) show ?thesis by (simp add: store_opens_def)
qed

text \<open>A file received with the announced length is stored, and only the waiters of its key are told.\<close>

lemma receive_file_ok:
  assumes "srv_inv s" and "drain (peer_in p) = (d @ rest, None)" and "sh_Size h = int (length d)"
  obtains fs' where
    "receive_file J s h p =
       (notifyFileWaiter (s\<lparr>srv_store := learn (srv_store s) (sh_Key h), disk := fs'\<rparr>) (sh_Key h),
        p\<lparr>peer_in := rd_rest (length d) (peer_in p)\<rparr>, None)"
    and "store_inv (srv_store s) fs'"
    and "vault (srv_store s) fs' = (vault (srv_store s) (disk s))((srv_ID s, HashKey (sh_Key h)) \<mapsto> d)"
proof -
  note inv = srv_invD [OF assms(1)]
  have lim: "drain (LimitReader (length d) (peer_in p)) = (d, None)"
    using drain_LimitReader [OF assms(2), of "length d"] by simp
  obtain fs' where fs': "store_Write J (srv_store s) (disk s) (srv_ID s) (sh_Key h) (LimitReader (length d) (peer_in p)) =
      (learn (srv_store s) (sh_Key h), fs', case drain (LimitReader (length d) (peer_in p)) of
         (d, None) \<Rightarrow> Inr (length d) | (d, Some e) \<Rightarrow> Inl e)"
    "store_inv (srv_store s) fs'"
    "vault (srv_store s) fs' = (vault (srv_store s) (disk s))
       ((srv_ID s, HashKey (sh_Key h)) \<mapsto> fst (drain (LimitReader (length d) (peer_in p))))"
    using Write_vault [OF inv] by metis
  show ?thesis
  proof (rule that)
    show "receive_file J s h p =
       (notifyFileWaiter (s\<lparr>srv_store := learn (srv_store s) (sh_Key h), disk := fs'\<rparr>) (sh_Key h),
        p\<lparr>peer_in := rd_rest (length d) (peer_in p)\<rparr>, None)"
      using fs'(1) lim store_opens_inv [OF assms(1)] assms(3)
      by (simp add: receive_file_def Let_def)
  qed (use fs' lim in simp_all)
qed

lemma notifyFileWaiter_simps [simp]:
  "srv_store (notifyFileWaiter s h) = srv_store s" "disk (notifyFileWaiter s h) = disk s"
  "srv_ID (notifyFileWaiter s h) = srv_ID s" "Peers (notifyFileWaiter s h) = Peers s"
  "EncKey (notifyFileWaiter s h) = EncKey s"
  by (simp_all add: notifyFileWaiter_def split: option.split)

lemma receive_header_frame:
  assumes "drain (peer_in p) = (frame_of hdr (d @ rest), None)" and "length hdr < 2 ^ 15"
    and "dec_hdr G hdr = Inr h"
  obtains r where "receive_header G J s p = Return (receive_file J s h (p\<lparr>peer_in := r\<rparr>))"
    and "drain r = (d @ rest, None)"
proof -
  let ?sz = "header_size_bytes (length hdr)"
  obtain r1 where r1: "ReadFull 2 (peer_in p) = (Inr ?sz, r1)" "drain r1 = (hdr @ d @ rest, None)"
    using ReadFull_ok [OF assms(1), of 2] by (auto simp: frame_of_def)
  obtain r2 where r2: "ReadFull (length hdr) r1 = (Inr hdr, r2)" "drain r2 = (d @ rest, None)"
    using ReadFull_ok [OF r1(2), of "length hdr"] by auto
  show ?thesis
    using that [OF _ r2(2)] r1(1) r2(1) of_le_header_size [OF assms(2)] assms(3)
    by (simp add: receive_header_def Let_def)
qed

lemma handleStream_frame:
  assumes "srv_inv s" and "map_of (Peers s) a = Some p" and "0 < peer_wg p"
    and "drain (peer_in p) = (frame_of hdr (d @ rest), None)" and "length hdr < 2 ^ 15"
    and "dec_hdr G hdr = Inr h" and "sh_Size h = int (length d)"
  obtains s' p' where "handleStream G J s a = Return (s', None)" and "srv_inv s'"
    and "srv_ID s' = srv_ID s" and "EncKey s' = EncKey s" and "Root (srv_store s') = Root (srv_store s)"
    and "vault (srv_store s') (disk s') =
       (vault (srv_store s) (disk s))((srv_ID s, HashKey (sh_Key h)) \<mapsto> d)"
    and "map_of (Peers s') = (map_of (Peers s))(a \<mapsto> p')" and "drain (peer_in p') = (rest, None)"
    and "peer_wg p' = peer_wg p - 1"
    and "waiters s' = waiters (notifyFileWaiter s (sh_Key h))" and "ready s' = ready (notifyFileWaiter s (sh_Key h))"
    and "next_ch s' = next_ch s"
proof -
  obtain r where r: "receive_header G J s p = Return (receive_file J s h (p\<lparr>peer_in := r\<rparr>))"
    "drain r = (d @ rest, None)"
    using receive_header_frame [OF assms(4-6)] .
  have inp: "drain (peer_in (p\<lparr>peer_in := r\<rparr>)) = (d @ rest, None)"
    using r(2) by simp
  obtain fs' where fs': "receive_file J s h (p\<lparr>peer_in := r\<rparr>) =
       (notifyFileWaiter (s\<lparr>srv_store := learn (srv_store s) (sh_Key h), disk := fs'\<rparr>) (sh_Key h),
        p\<lparr>peer_in := r\<rparr>\<lparr>peer_in := rd_rest (length d) (peer_in (p\<lparr>peer_in := r\<rparr>))\<rparr>, None)"
    "store_inv (srv_store s) fs'"
    "vault (srv_store s) fs' = (vault (srv_store s) (disk s))((srv_ID s, HashKey (sh_Key h)) \<mapsto> d)"
    using receive_file_ok [OF assms(1) inp assms(7)] .
  let ?n = "notifyFileWaiter (s\<lparr>srv_store := learn (srv_store s) (sh_Key h), disk := fs'\<rparr>) (sh_Key h)"
  let ?p = "p\<lparr>peer_in := rd_rest (length d) r, peer_wg := peer_wg p - 1\<rparr>"
  have run: "handleStream G J s a = Return (?n\<lparr>Peers := AList.update a ?p (Peers s)\<rparr>, None)"
    using assms(2,3) r(1) fs'(1) by (simp add: handleStream_def CloseStream_def)
  have "drain (peer_in ?p) = (rest, None)"
    using drain_rd_rest [OF r(2), of "length d"] by simp
  with run fs'(2,3) srv_invD(2) [OF assms(1)] show ?thesis
    by (intro that [of "?n\<lparr>Peers := AList.update a ?p (Peers s)\<rparr>" ?p])
      (auto simp: srv_inv_def update_conv' notifyFileWaiter_def split: option.split)
qed

section \<open>Storing and reading back\<close>

lemma stream_to_Peers [simp]:
  "stream_to G (s\<lparr>Peers := q\<rparr>) cancelled key n p = stream_to G s cancelled key n p"
proof -
  have eqs: "srv_ID (s\<lparr>Peers := q\<rparr>) = srv_ID s" "srv_store (s\<lparr>Peers := q\<rparr>) = srv_store s"
    "disk (s\<lparr>Peers := q\<rparr>) = disk s"
    by simp_all
  show ?thesis
    unfolding stream_to_def sendStream_def eqs ..
qed

lemma Store_ok:
  assumes "srv_inv s" and "valid_key (EncKey s)" and "drain r = (d, None)"
  obtains s' where "Store G J s (Some f) cancelled key r = (s', None)" and "srv_inv s'"
    and "vault (srv_store s') (disk s') =
      (vault (srv_store s) (disk s))((srv_ID s, HashKey key) \<mapsto> seal (EncKey s) (fresh_iv f) d)"
    and "srv_ID s' = srv_ID s" and "EncKey s' = EncKey s" and "srv_store s' = learn (srv_store s) key"
    and "waiters s' = waiters s" and "ready s' = ready s"
    and "Peers s' = map (\<lambda>(a, p). (a, stream_to G s' cancelled key (48 + int (length d)) p)) (Peers s)"
proof -
  note inv = srv_invD [OF assms(1)]
  have c: "CopyEncrypt (EncKey s) (Some f) r new_buffer =
      (new_buffer\<lparr>w_buf := seal (EncKey s) (fresh_iv f) d\<rparr>, Inr (48 + length d))"
    using CopyEncrypt_eq [OF assms(2), of new_buffer f r] assms(3) by (simp add: new_buffer_def)
  obtain fs' where fs': "store_WriteEncrypt J (srv_store s) (disk s) (Some f) (EncKey s) (srv_ID s) key r =
      (learn (srv_store s) key, fs', snd (CopyEncrypt (EncKey s) (Some f) r new_buffer))"
    "store_inv (srv_store s) fs'"
    "vault (srv_store s) fs' = (vault (srv_store s) (disk s))
       ((srv_ID s, HashKey key) \<mapsto> w_buf (fst (CopyEncrypt (EncKey s) (Some f) r new_buffer)))"
    using WriteEncrypt_vault [OF inv] by blast
  let ?t = "s\<lparr>srv_store := learn (srv_store s) key, disk := fs'\<rparr>"
  let ?t' = "?t\<lparr>Peers := map (\<lambda>(a, p). (a, stream_to G ?t cancelled key (48 + int (length d)) p)) (Peers s)\<rparr>"
  show ?thesis
  proof (rule that [of ?t'])
    show "Store G J s (Some f) cancelled key r = (?t', None)"
      using fs'(1) c by (simp add: Store_def Let_def)
  qed (use fs'(2,3) inv(2) c in \<open>simp_all add: srv_inv_def\<close>)
qed

lemma decryptOnTheFly_sealed:
  assumes "valid_key (EncKey s)" and "drain r = (seal (EncKey s) (fresh_iv f) d, None)"
  shows "drain (decryptOnTheFly s None r) = (d, None)"
proof -
  have "unseal (EncKey s) (seal (EncKey s) (fresh_iv f) d) = Some d"
    by (rule sealed.dec_enc) simp
  then have "CopyDecrypt (EncKey s) r new_buffer = (new_buffer\<lparr>w_buf := d\<rparr>, Inr (length d))"
    using CopyDecrypt_eq [OF assms(1) _ assms(2), of new_buffer] by (simp add: new_buffer_def)
  then show ?thesis
    by (simp add: decryptOnTheFly_def)
qed

lemma Get_local:
  assumes "srv_inv s" and "holds s key = Some b"
  shows "Get G s cancel key = (s, Served (Inr (decryptOnTheFly s cancel (bytes_reader b))))"
proof -
  note inv = srv_invD [OF assms(1)]
  have "store_Has (srv_store s) (disk s) (srv_ID s) key"
    using Has_vault [OF inv(1)] assms(2) by (simp add: holds_def)
  moreover have "store_Read (srv_store s) (disk s) (srv_ID s) key = Inr (length b, bytes_reader b)"
    using Read_vault [OF inv, of key] assms(2) by (auto simp: holds_def)
  ultimately show ?thesis
    by (simp add: Get_def)
qed

lemma stream_to_sends:
  assumes "srv_inv s" and "holds s key = Some b" and "w_err (peer_out p) = None"
    and "enc_hdr G \<lparr>sh_ID = srv_ID s, sh_Key = key, sh_Size = len\<rparr> = Inr hdr"
  shows "stream_to G s False key len p =
    p\<lparr>peer_out := (peer_out p)\<lparr>w_buf := w_buf (peer_out p) @ IncomingStream # frame_of hdr b\<rparr>\<rparr>"
proof -
  have "store_Read (srv_store s) (disk s) (srv_ID s) key = Inr (length b, bytes_reader b)"
    using Read_vault [OF srv_invD [OF assms(1)], of key] assms(2) by (auto simp: holds_def)
  then show ?thesis
    using sendStream_frame [OF assms(3) drain_bytes_reader assms(4)] by (simp add: stream_to_def)
qed

section \<open>Waiting downloads\<close>

text \<open>
  Channels are handed out once, every waiting list is keyed by a hash, holds at most 100 channels,
  and none of them has been signalled.
\<close>

definition wait_inv :: "FileServer \<Rightarrow> bool" where
  "wait_inv s \<longleftrightarrow>
     (\<forall>h cs. map_of (waiters s) h = Some cs \<longrightarrow>
        length h = 64 \<and> length cs \<le> maxWaitersPerKey \<and> distinct cs \<and>
        (\<forall>c \<in> set cs. c < next_ch s \<and> c \<notin> set (ready s))) \<and>
     (\<forall>c \<in> set (ready s). c < next_ch s) \<and>
     (\<forall>h h' cs cs'. map_of (waiters s) h = Some cs \<longrightarrow> map_of (waiters s) h' = Some cs' \<longrightarrow>
        h \<noteq> h' \<longrightarrow> set cs \<inter> set cs' = {})"

lemma wait_inv_hash: "wait_inv s \<Longrightarrow> map_of (waiters s) h = Some cs \<Longrightarrow> length h = 64"
  by (simp add: wait_inv_def)

lemma notify_other:
  assumes "wait_inv s" and "length key \<noteq> 64"
  shows "notifyFileWaiter s key = s"
  using wait_inv_hash [OF assms(1)] assms(2) by (auto simp: notifyFileWaiter_def split: option.split)

lemma waiting_Some: "map_of (waiters s) h = Some cs \<Longrightarrow> waiting s h = cs"
  by (simp add: waiting_def)

lemma wait_inv_waiting:
  assumes "wait_inv s"
  shows "length (waiting s h) \<le> maxWaitersPerKey" and "distinct (waiting s h)"
    and "c \<in> set (waiting s h) \<Longrightarrow> c < next_ch s \<and> c \<notin> set (ready s)"
    and "h \<noteq> h' \<Longrightarrow> set (waiting s h) \<inter> set (waiting s h') = {}"
proof -
  show "length (waiting s h) \<le> maxWaitersPerKey" and "distinct (waiting s h)"
    and "c \<in> set (waiting s h) \<Longrightarrow> c < next_ch s \<and> c \<notin> set (ready s)"
    using assms by (cases "map_of (waiters s) h"; simp add: wait_inv_def waiting_def)+
  show "h \<noteq> h' \<Longrightarrow> set (waiting s h) \<inter> set (waiting s h') = {}"
    using assms by (cases "map_of (waiters s) h"; cases "map_of (waiters s) h'")
      (auto simp: wait_inv_def waiting_def)
qed

lemma registerFileWaiter_ok:
  assumes "wait_inv s" and "length (waiting s (HashKey key)) < maxWaitersPerKey"
  obtains s' where "registerFileWaiter s key = (s', Inr (next_ch s))" and "wait_inv s'"
    and "waiting s' h = (if h = HashKey key then waiting s h @ [next_ch s] else waiting s h)"
    and "ready s' = ready s" and "next_ch s' = Suc (next_ch s)"
proof -
  let ?h = "HashKey key" and ?ch = "next_ch s"
  let ?s = "s\<lparr>next_ch := ?ch + 1, waiters := AList.update ?h (waiting s ?h @ [?ch]) (waiters s)\<rparr>"
  note w = wait_inv_waiting [OF assms(1)]
  have fresh: "?ch \<notin> set (waiting s h)" "?ch \<notin> set (ready s)" for h
    using w(3) assms(1) by (auto simp: wait_inv_def)
  have old: "cs = waiting s h" if "map_of (waiters s) h = Some cs" for h cs
    using that by (simp add: waiting_def)
  have reg: "registerFileWaiter s key = (?s, Inr ?ch)"
    using assms(2) by (simp add: registerFileWaiter_def Let_def)
  have get: "map_of (waiters ?s) h = (if h = ?h then Some (waiting s ?h @ [?ch]) else map_of (waiters s) h)" for h
    by (simp add: update_conv')
  have "wait_inv ?s"
    unfolding wait_inv_def get
  proof (intro conjI allI impI)
    fix h cs
    assume *: "(if h = ?h then Some (waiting s ?h @ [?ch]) else map_of (waiters s) h) = Some cs"
    show "length h = 64"
      using * wait_inv_hash [OF assms(1)] by (cases "h = ?h") auto
    show "length cs \<le> maxWaitersPerKey" and "distinct cs"
      using * old w(1,2) [of h] fresh assms(2) by (cases "h = ?h"; auto)+
    show "\<forall>c \<in> set cs. c < next_ch ?s \<and> c \<notin> set (ready ?s)"
      using * old w(3) [of _ h] fresh by (cases "h = ?h") (auto simp: less_Suc_eq)
  next
    show "\<forall>c \<in> set (ready ?s). c < next_ch ?s"
      using assms(1) by (auto simp: wait_inv_def less_Suc_eq)
  next
    fix h h' cs cs'
    assume "(if h = ?h then Some (waiting s ?h @ [?ch]) else map_of (waiters s) h) = Some cs"
      and "(if h' = ?h then Some (waiting s ?h @ [?ch]) else map_of (waiters s) h') = Some cs'"
      and "h \<noteq> h'"
    then have "set cs \<subseteq> set (waiting s h) \<union> (if h = ?h then {?ch} else {})"
      and "set cs' \<subseteq> set (waiting s h') \<union> (if h' = ?h then {?ch} else {})"
      using old by (auto split: if_splits)
    with \<open>h \<noteq> h'\<close> w(4) [OF \<open>h \<noteq> h'\<close>] fresh(1) show "set cs \<inter> set cs' = {}"
      by (auto split: if_splits)
  qed
  with reg show ?thesis
    by (intro that [of ?s]) (simp_all add: waiting_def update_conv')
qed

text \<open>Notifying a hash signals exactly its channels and forgets them.\<close>

lemma notify_some:
  assumes "map_of (waiters s) h = Some cs"
  shows "map_of (waiters (notifyFileWaiter s h)) x = (if x = h then None else map_of (waiters s) x)"
    and "next_ch (notifyFileWaiter s h) = next_ch s"
    and "set (ready (notifyFileWaiter s h)) = set (ready s) \<union> set cs"
  using assms by (auto simp: notifyFileWaiter_def delete_conv')

lemma notify_wait_inv:
  assumes "wait_inv s" and "map_of (waiters s) h = Some cs"
  shows "wait_inv (notifyFileWaiter s h)"
  unfolding wait_inv_def notify_some [OF assms(2)]
proof (intro conjI allI impI ballI)
  fix x xs c
  assume "(if x = h then None else map_of (waiters s) x) = Some xs"
  then have x: "map_of (waiters s) x = Some xs" "x \<noteq> h"
    by (auto split: if_splits)
  with assms(1) show "length x = 64" and "length xs \<le> maxWaitersPerKey" and "distinct xs"
    by (auto simp: wait_inv_def)
  assume c: "c \<in> set xs"
  with x assms(1) show "c < next_ch s"
    by (auto simp: wait_inv_def)
  show "c \<notin> set (ready s) \<union> set cs"
    using x c assms unfolding wait_inv_def by blast
next
  fix c
  assume "c \<in> set (ready s) \<union> set cs"
  with assms show "c < next_ch s"
    unfolding wait_inv_def by blast
next
  fix x x' xs xs'
  assume "(if x = h then None else map_of (waiters s) x) = Some xs"
    and "(if x' = h then None else map_of (waiters s) x') = Some xs'" and "x \<noteq> x'"
  with assms(1) show "set xs \<inter> set xs' = {}"
    unfolding wait_inv_def by (metis option.distinct(1))
qed

lemma notify_effect:
  assumes "wait_inv s"
  shows "wait_inv (notifyFileWaiter s h)"
    and "set (ready (notifyFileWaiter s h)) = set (ready s) \<union> set (waiting s h)"
    and "waiting (notifyFileWaiter s h) h' = (if h' = h then [] else waiting s h')"
proof -
  have "notifyFileWaiter s h = s \<and> waiting s h = []" if "map_of (waiters s) h = None"
    using that by (simp add: notifyFileWaiter_def waiting_def)
  moreover have "wait_inv (notifyFileWaiter s h) \<and>
      set (ready (notifyFileWaiter s h)) = set (ready s) \<union> set (waiting s h) \<and>
      waiting (notifyFileWaiter s h) h' = (if h' = h then [] else waiting s h')" if "map_of (waiters s) h = Some cs" for cs
    using notify_wait_inv [OF assms that] notify_some [OF that] that by (simp add: waiting_def)
  ultimately show "wait_inv (notifyFileWaiter s h)"
    and "set (ready (notifyFileWaiter s h)) = set (ready s) \<union> set (waiting s h)"
    and "waiting (notifyFileWaiter s h) h' = (if h' = h then [] else waiting s h')"
    using assms by (cases "map_of (waiters s) h"; auto)+
qed

section \<open>The message loop keeps the invariants\<close>

definition node_inv :: "FileServer \<Rightarrow> bool" where
  "node_inv s \<longleftrightarrow> srv_inv s \<and> wait_inv s"

lemma node_inv_Peers [simp]: "node_inv (s\<lparr>Peers := ps\<rparr>) = node_inv s"
  by (simp add: node_inv_def srv_inv_def wait_inv_def)

lemma node_inv_Transport [simp]: "node_inv (s\<lparr>Transport := t\<rparr>) = node_inv s"
  by (simp add: node_inv_def srv_inv_def wait_inv_def)

lemma node_inv_cong:
  assumes "srv_store t = srv_store s" and "disk t = disk s" and "srv_ID t = srv_ID s"
    and "waiters t = waiters s" and "next_ch t = next_ch s" and "ready t = ready s"
  shows "node_inv t = node_inv s"
  using assms by (simp add: node_inv_def srv_inv_def wait_inv_def)

lemma node_inv_notify: "node_inv s \<Longrightarrow> node_inv (notifyFileWaiter s h)"
  using notify_effect(1) [of s h] by (simp add: node_inv_def srv_inv_def)

lemma receive_file_inv:
  assumes "node_inv s" and "receive_file J s h p = (s', p', e)"
  shows "node_inv s' \<and> Peers s' = Peers s \<and> peer_wg p' = peer_wg p"
proof -
  have inv: "store_inv (srv_store s) (disk s)" "valid_id (srv_ID s)"
    using assms(1) by (simp_all add: node_inv_def srv_inv_def)
  let ?r = "LimitReader (nat (sh_Size h)) (peer_in p)"
  obtain fs' where fs': "store_Write J (srv_store s) (disk s) (srv_ID s) (sh_Key h) ?r =
      (learn (srv_store s) (sh_Key h), fs', case drain ?r of (d, None) \<Rightarrow> Inr (length d) | (d, Some e) \<Rightarrow> Inl e)"
    "store_inv (srv_store s) fs'"
    using Write_vault [OF inv] by metis
  let ?t = "s\<lparr>srv_store := learn (srv_store s) (sh_Key h), disk := fs'\<rparr>"
  have "node_inv ?t"
    using assms(1) fs'(2) by (simp add: node_inv_def srv_inv_def wait_inv_def)
  moreover have "s' = ?t \<or> s' = notifyFileWaiter ?t (sh_Key h)" "peer_wg p' = peer_wg p"
    using assms(2) fs'(1) by (auto simp: receive_file_def Let_def split: prod.splits sum.splits option.splits)
  ultimately show ?thesis
    using node_inv_notify by auto
qed

lemma handleStream_inv:
  assumes "node_inv s" and "handleStream G J s a = Return (s', e)"
  shows "node_inv s'"
proof (cases "map_of (Peers s) a")
  case None
  with assms show ?thesis by (simp add: handleStream_def)
next
  case (Some p)
  then obtain s1 p1 p2 where r: "receive_header G J s p = Return (s1, p1, e)"
    and s': "s' = s1\<lparr>Peers := AList.update a p2 (Peers s1)\<rparr>"
    using assms(2) by (auto simp: handleStream_def split: go.splits prod.splits)
  have "node_inv s1"
  proof -
    consider "s1 = s" | h p0 where "receive_file J s h p0 = (s1, p1, e)"
      using r by (auto simp: receive_header_def Let_def split: prod.splits sum.splits if_splits)
    then show ?thesis
      by cases (use assms(1) receive_file_inv in \<open>auto dest: receive_file_inv [OF assms(1)]\<close>)
  qed
  with s' show ?thesis by simp
qed

lemma handleMessage_inv:
  assumes "node_inv s" and "handleMessage G now s a msg = (s', dials, e)"
  shows "node_inv s'"
proof (cases msg)
  case (MessageGetFile i k)
  then have "\<exists>e. handleMessageGetFile G s a k = (s', e)"
    using assms(2) by (auto simp: handleMessage_def split: prod.splits)
  then have "\<exists>ps. s' = s \<or> s' = s\<lparr>Peers := ps\<rparr>"
    by (auto simp: handleMessageGetFile_def Let_def split: option.splits if_splits sum.splits prod.splits)
  with assms(1) show ?thesis by auto
next
  case (MessagePeerExchange ps)
  then have h: "HandlePeerExchange now s ps = (s', dials)"
    using assms(2) by (auto simp: handleMessage_def split: prod.splits)
  show ?thesis
  proof (cases "pex_Enabled (Pex s)")
    case False
    with h assms(1) show ?thesis by (simp add: HandlePeerExchange_def)
  next
    case True
    with h have hp: "handle_peers now s ps = (s', dials)"
      by (simp add: HandlePeerExchange_def)
    have "next_ch s' = next_ch s \<and> ready s' = ready s"
      using hp
    proof (induction now s ps arbitrary: dials rule: handle_peers.induct)
      case (2 now s peer ps)
      then show ?case by (auto split: if_splits prod.splits)
    qed simp
    with handle_peers_frame [OF hp] assms(1) show ?thesis
      using node_inv_cong by blast
  qed
qed (use assms in \<open>auto simp: handleMessage_def\<close>)

lemma loop_rpc_inv:
  assumes "node_inv s" and "loop_rpc G J now s rpc = Return (s', dials)"
  shows "node_inv s'"
proof (cases "rpc_Stream rpc")
  case True
  with assms show ?thesis
    using handleStream_inv by (auto simp: loop_rpc_def split: go.splits prod.splits)
next
  case False
  with assms show ?thesis
    using handleMessage_inv by (auto simp: loop_rpc_def Let_def split: prod.splits)
qed

lemma loop_inv: "loop G J s es = Return (s', dials, b) \<Longrightarrow> node_inv s \<Longrightarrow> node_inv s'"
proof (induction G J s es arbitrary: dials rule: loop.induct)
  case (2 G J s now rpc es)
  obtain s1 d1 where s1: "loop_rpc G J now s rpc = Return (s1, d1)"
    using "2.prems"(1) by (cases "loop_rpc G J now s rpc") auto
  then obtain d2 where "loop G J s1 es = Return (s', d2, b)"
    using "2.prems"(1) by (auto split: go.splits prod.splits)
  with "2.IH" [OF s1 refl] loop_rpc_inv [OF "2.prems"(2) s1] show ?case by blast
qed (auto split: go.splits prod.splits)

lemma Start_inv:
  assumes "Start G J listen s es = Return (s', dials, e)" and "node_inv s"
  shows "node_inv s'"
  using assms by (auto simp: Start_def dest!: loop_inv split: option.splits if_splits go.splits prod.splits)

lemma handleConn_result:
  "handleConn s addr r w out =
     (OnPeer s (NewTCPPeer addr r w out), \<lparr>c_peer = NewTCPPeer addr r w out, c_phase = Reading, c_queue = []\<rparr>)"
  by (simp add: handleConn_def NOPHandshakeFunc_def Let_def)

lemma node_inv_OnPeer [simp]: "node_inv (OnPeer s p) = node_inv s"
  by (simp add: OnPeer_def)

text \<open>Accepting connections: the loop crashes on a failed \<open>Accept\<close>, and otherwise keeps the invariant.\<close>

definition live :: "accepted list \<Rightarrow> accepted list" where
  "live as = takeWhile (\<lambda>a. a \<noteq> AcceptClosed) as"

lemma startAcceptLoop_inv:
  "startAcceptLoop s as = Return (s', cs) \<Longrightarrow>
     node_inv s' = node_inv s \<and> list_all conn_init cs \<and> length cs = length (live as) \<and>
     list_all (\<lambda>c. map_of (Peers s') (RemoteAddr (c_peer c)) \<noteq> None) cs \<and>
     (\<forall>a. map_of (Peers s) a \<noteq> None \<longrightarrow> map_of (Peers s') a \<noteq> None)"
proof (induction s as arbitrary: cs rule: startAcceptLoop.induct)
  case (4 s addr r w as)
  let ?p = "NewTCPPeer addr r w False"
  obtain cs' where cs: "startAcceptLoop (OnPeer s ?p) as = Return (s', cs')"
    "cs = \<lparr>c_peer = ?p, c_phase = Reading, c_queue = []\<rparr> # cs'"
    using "4.prems" by (auto simp: handleConn_result split: go.splits prod.splits)
  have "map_of (Peers (OnPeer s ?p)) a \<noteq> None" if "a = addr \<or> map_of (Peers s) a \<noteq> None" for a
    using that by (auto simp: OnPeer_def NewTCPPeer_def update_conv')
  then show ?case
    using "4.IH" [OF handleConn_result [symmetric] cs(1)]
    by (auto simp: cs(2) live_def conn_init_def NewTCPPeer_def)
qed (simp_all add: live_def)

lemma startAcceptLoop_panics:
  "(\<exists>x. startAcceptLoop s as = Panic x) \<longleftrightarrow> (\<exists>e. AcceptFailed e \<in> set (live as))"
  by (induction s as rule: startAcceptLoop.induct) (auto simp: live_def split: go.splits prod.splits)

lemma exchange_rounds_inv: "node_inv (exchange_rounds G s es) = node_inv s"
  by (induction G s es rule: exchange_rounds.induct)
    (auto simp: exchangePeerLists_def broadcast_def split: option.splits sum.splits prod.splits)

section \<open>What a peer can make the server do\<close>

text \<open>
  With the stream counter up, handling a stream fails with a panic for exactly one reason: the two
  bytes of the header size are read as a negative number.
\<close>

lemma receive_header_Panic:
  "receive_header G J s p = Panic x \<longleftrightarrow>
     x = ''makeslice: len out of range'' \<and>
     (\<exists>sz r. ReadFull 2 (peer_in p) = (Inr sz, r) \<and> i16 (int (of_le_bytes sz)) < 0)"
  by (auto simp: receive_header_def Let_def split: prod.splits sum.splits)

lemma receive_header_wg:
  "receive_header G J s p = Return (s', p', e) \<Longrightarrow> peer_wg p' = peer_wg p"
  by (auto simp: receive_header_def receive_file_def Let_def split: prod.splits sum.splits if_splits)

lemma handleStream_Panic:
  assumes "map_of (Peers s) a = Some p" and "0 < peer_wg p"
  shows "handleStream G J s a = Panic x \<longleftrightarrow>
     x = ''makeslice: len out of range'' \<and>
     (\<exists>sz r. ReadFull 2 (peer_in p) = (Inr sz, r) \<and> i16 (int (of_le_bytes sz)) < 0)"
proof (cases "receive_header G J s p")
  case (Return y)
  obtain s' p' e where y: "y = (s', p', e)" by (cases y) auto
  have "\<not> (\<exists>sz r. ReadFull 2 (peer_in p) = (Inr sz, r) \<and> i16 (int (of_le_bytes sz)) < 0)"
    using Return receive_header_Panic [of G J s p "''makeslice: len out of range''"] by simp
  moreover have "handleStream G J s a \<noteq> Panic x"
    using assms Return y receive_header_wg [of G J s p s' p' e] by (simp add: handleStream_def CloseStream_def)
  ultimately show ?thesis by blast
next
  case (Panic m)
  have run: "handleStream G J s a = Panic m"
    by (simp add: handleStream_def assms(1) Panic)
  show ?thesis
    unfolding run go.inject using iffD1 [OF receive_header_Panic Panic] by blast
qed

section \<open>Replication\<close>

lemma map_of_Peers_map:
  "map_of (map (\<lambda>(a, p). (a, g p)) al) a = map_option g (map_of al a)"
  by (induction al) auto

lemma receive_stream:
  assumes "srv_inv B" and "dec_hdr G hdr = Inr \<lparr>sh_ID = i, sh_Key = key, sh_Size = int (length b)\<rparr>"
    and "length hdr < 2 ^ 15" and "concat bs = IncomingStream # frame_of hdr b" and "[] \<notin> set bs"
    and "peer_in q = map (\<lambda>b. (b, ROk)) bs"
  shows "\<exists>rpc q'. read_one q = (Inr rpc, q') \<and> rpc_Stream rpc \<and>
    (map_of (Peers B) a = Some q' \<longrightarrow> (\<exists>B'. handleStream G J B a = Return (B', None) \<and> srv_inv B' \<and>
       EncKey B' = EncKey B \<and> holds B' key = Some b))"
proof -
  obtain x bs' where bs: "bs = (IncomingStream # x) # bs'"
    using assms(4,5) by (cases bs; cases "hd bs") auto
  let ?r = "if x = [] then map (\<lambda>b. (b, ROk)) bs' else (x, ROk) # map (\<lambda>b. (b, ROk)) bs'"
  let ?q = "q\<lparr>peer_in := ?r, peer_wg := peer_wg q + 1\<rparr>"
  have ro: "read_one q = (Inr (empty_rpc\<lparr>rpc_Stream := True, rpc_From := RemoteAddr q\<rparr>), ?q)"
    using assms(6) Decode_stream [of x "map (\<lambda>b. (b, ROk)) bs'" empty_rpc] by (simp add: read_one_def bs)
  have dr: "drain (peer_in ?q) = (frame_of hdr (b @ []), None)"
    using assms(4) bs by (auto simp: drain_chunks)
  have wg: "0 < peer_wg ?q" by simp
  have sz: "sh_Size \<lparr>sh_ID = i, sh_Key = key, sh_Size = int (length b)\<rparr> = int (length b)" by simp
  have "\<exists>B'. handleStream G J B a = Return (B', None) \<and> srv_inv B' \<and> EncKey B' = EncKey B \<and> holds B' key = Some b"
    if "map_of (Peers B) a = Some ?q"
    by (rule handleStream_frame [OF assms(1) that wg dr assms(3,2) sz, where J = J]) (simp add: holds_def)
  with ro show ?thesis
    by (intro exI [of _ "empty_rpc\<lparr>rpc_Stream := True, rpc_From := RemoteAddr q\<rparr>"] exI [of _ ?q]) simp
qed

lemma Store_sends:
  assumes "srv_inv A" and "valid_key (EncKey A)" and "drain r = (d, None)"
    and "map_of (Peers A) b = Some p" and "w_err (peer_out p) = None"
    and "enc_hdr G \<lparr>sh_ID = srv_ID A, sh_Key = key, sh_Size = 48 + int (length d)\<rparr> = Inr hdr"
  shows "\<exists>A' p'. Store G J A (Some f) False key r = (A', None) \<and> map_of (Peers A') b = Some p' \<and>
    w_buf (peer_out p') = w_buf (peer_out p) @ IncomingStream # frame_of hdr (seal (EncKey A) (fresh_iv f) d)"
proof -
  let ?b = "seal (EncKey A) (fresh_iv f) d"
  obtain t where t: "Store G J A (Some f) False key r = (t, None)" "srv_inv t"
    "vault (srv_store t) (disk t) = (vault (srv_store A) (disk A))((srv_ID A, HashKey key) \<mapsto> ?b)"
    "srv_ID t = srv_ID A" "EncKey t = EncKey A"
    "Peers t = map (\<lambda>(a, p). (a, stream_to G t False key (48 + int (length d)) p)) (Peers A)"
    using Store_ok [OF assms(1-3)] .
  have "holds t key = Some ?b"
    by (simp add: holds_def t(3,4))
  then have "w_buf (peer_out (stream_to G t False key (48 + int (length d)) p)) =
      w_buf (peer_out p) @ IncomingStream # frame_of hdr ?b"
    using stream_to_sends [OF t(2), of key ?b p G _ hdr] assms(5,6) by (simp add: t(4))
  moreover have "map_of (Peers t) b = Some (stream_to G t False key (48 + int (length d)) p)"
    unfolding t(6) by (simp add: map_of_Peers_map assms(4))
  ultimately show ?thesis
    using t(1) by blast
qed

section \<open>Retrieval from the network\<close>

lemma broadcast_frame:
  "\<exists>ps. fst (broadcast G s msg) = s\<lparr>Peers := ps\<rparr>"
proof (cases "enc_msg G msg")
  case (Inl e)
  then show ?thesis
    by (intro exI [of _ "Peers s"]) (simp add: broadcast_def)
next
  case (Inr buf)
  then show ?thesis
    by (intro exI [of _ "fst (send_all buf (Peers s))"]) (simp add: broadcast_def split: prod.split)
qed

lemma Get_waits:
  assumes "node_inv s" and "holds s key = None" and "length (waiting s (HashKey key)) < maxWaitersPerKey"
  obtains s' where "Get G s cancel key = (s', Waiting_on (next_ch s))" and "node_inv s'"
    and "waiting s' (HashKey key) = waiting s (HashKey key) @ [next_ch s]" and "ready s' = ready s"
    and "srv_store s' = srv_store s" and "disk s' = disk s" and "srv_ID s' = srv_ID s" and "holds s' key = None"
proof -
  have inv: "wait_inv s" "srv_inv s"
    using assms(1) by (simp_all add: node_inv_def)
  obtain t where t: "registerFileWaiter s key = (t, Inr (next_ch s))" "wait_inv t"
    "waiting t (HashKey key) = (if HashKey key = HashKey key then waiting s (HashKey key) @ [next_ch s] else waiting s (HashKey key))"
    "ready t = ready s" "next_ch t = Suc (next_ch s)"
    using registerFileWaiter_ok [OF inv(1) assms(3)] .
  have keep: "srv_store t = srv_store s" "disk t = disk s" "srv_ID t = srv_ID s"
    using t(1) by (auto simp: registerFileWaiter_def Let_def split: if_splits)
  obtain ps where ps: "fst (broadcast G t (MessageGetFile (srv_ID s) (HashKey key))) = t\<lparr>Peers := ps\<rparr>"
    using broadcast_frame by blast
  have "\<not> store_Has (srv_store s) (disk s) (srv_ID s) key"
    using Has_vault srv_invD [OF inv(2)] assms(2) by (simp add: holds_def)
  then have "Get G s cancel key = (t\<lparr>Peers := ps\<rparr>, Waiting_on (next_ch s))"
    using t(1) ps by (simp add: Get_def)
  moreover have "node_inv (t\<lparr>Peers := ps\<rparr>)"
    using t(2) inv(2) by (simp add: node_inv_def srv_inv_def keep wait_inv_def waiting_def)
  moreover have "waiting (t\<lparr>Peers := ps\<rparr>) (HashKey key) = waiting t (HashKey key)"
    by (simp add: waiting_def)
  ultimately show ?thesis
    using that [of "t\<lparr>Peers := ps\<rparr>"] t(3,4) keep assms(2) by (simp add: holds_def)
qed

lemma Get_again:
  assumes "node_inv s" and "holds s key = None" and "n + length (waiting s (HashKey key)) \<le> maxWaitersPerKey"
  shows "let t = ((\<lambda>s. fst (Get G s None key)) ^^ n) s in
    node_inv t \<and> holds t key = None \<and> length (waiting t (HashKey key)) = n + length (waiting s (HashKey key))"
  using assms
proof (induction n)
  case (Suc n)
  let ?t = "((\<lambda>s. fst (Get G s None key)) ^^ n) s"
  have t: "node_inv ?t" "holds ?t key = None" "length (waiting ?t (HashKey key)) = n + length (waiting s (HashKey key))"
    using Suc by (simp_all add: Let_def)
  then have room: "length (waiting ?t (HashKey key)) < maxWaitersPerKey"
    using Suc.prems by simp
  show ?case
    by (rule Get_waits [OF t(1,2) room, where G = G and cancel = None]) (simp add: t(3))
qed simp

section \<open>Starting a server\<close>

lemma NewFileServer_ok:
  assumes "store_inv s0 fs" and "Root s0 = o_StorageRoot opts"
    and "o_PathTransformFunc opts = Some CASPathTransformFunc" and "o_ID opts = []"
  shows "\<exists>srv. NewFileServer J opts (Some f) now fs = Some srv \<and> node_inv srv \<and> disk srv = fs \<and>
    srv_ID srv = EncodeToString (map f [0..<32]) \<and> vault (srv_store srv) fs = vault s0 fs"
proof -
  note inv = store_inv_D [OF assms(1)]
  let ?o = "\<lparr>opt_Root = o_StorageRoot opts, opt_PathTransformFunc = o_PathTransformFunc opts\<rparr>"
  have "o_StorageRoot opts \<noteq> []"
    using inv(2) assms(2) by (simp add: good_root_def)
  then obtain m where "NewStore J ?o fs = \<lparr>Root = Root s0, PathTransformFunc = CASPathTransformFunc, keyMap = m\<rparr>"
    using NewStore_keeps [of ?o J fs] assms(2,3) by auto
  then have m: "NewStore J ?o fs = s0\<lparr>keyMap := m\<rparr>"
    using inv(3) by (cases s0) simp
  have gen: "GenerateID (Some f) = Inr (EncodeToString (map f [0..<32]))"
    by (simp add: GenerateID_def rand_read_def)
  have ok: "ValidateNodeID (EncodeToString (map f [0..<32])) = Inr ()"
    by (simp add: GenerateID_valid)
  show ?thesis
    using assms(1,4) ok m gen
    by (simp add: NewFileServer_def NewGarbageCollector_def Let_def node_inv_def srv_inv_def wait_inv_def)
qed

section \<open>Broadcast\<close>

definition deliver :: "bytes \<Rightarrow> TCPPeer \<Rightarrow> TCPPeer" where
  "deliver buf p = (if w_err (peer_out p) = None
     then p\<lparr>peer_out := (peer_out p)\<lparr>w_buf := w_buf (peer_out p) @ IncomingMessage # buf\<rparr>\<rparr> else p)"

lemma send_all_eq:
  "send_all buf ps = (map (\<lambda>(a, p). (a, deliver buf p)) ps,
     map fst (filter (\<lambda>(a, p). w_err (peer_out p) \<noteq> None) ps))"
proof (induction ps)
  case (Cons e ps)
  obtain a p where e: "e = (a, p)" by fastforce
  show ?case
  proof (cases "w_err (peer_out p)")
    case None
    then show ?thesis by (simp add: e Cons Send_ok deliver_def)
  next
    case (Some x)
    then show ?thesis by (simp add: e Cons Send_err deliver_def)
  qed
qed simp

section \<open>Retrieval, end to end\<close>

text \<open>A request for a missing file is sent to every peer whose connection works.\<close>

lemma Get_sends:
  assumes "node_inv s" and "holds s key = None" and "length (waiting s (HashKey key)) < maxWaitersPerKey"
    and "enc_msg G (MessageGetFile (srv_ID s) (HashKey key)) = Inr buf"
  obtains s' where "Get G s cancel key = (s', Waiting_on (next_ch s))" and "node_inv s'"
    and "Peers s' = map (\<lambda>(a, p). (a, deliver buf p)) (Peers s)" and "EncKey s' = EncKey s"
proof -
  have wait: "\<not> store_Has (srv_store s) (disk s) (srv_ID s) key"
    using Has_vault assms(1,2) by (simp add: holds_def node_inv_def srv_inv_def)
  obtain s' where s': "Get G s cancel key = (s', Waiting_on (next_ch s))" "node_inv s'"
    by (rule Get_waits [OF assms(1-3), where G = G and cancel = cancel])
  moreover have "Peers s' = map (\<lambda>(a, p). (a, deliver buf p)) (Peers s)" "EncKey s' = EncKey s"
    using s'(1) wait assms(3,4)
    by (auto simp: Get_def registerFileWaiter_def Let_def broadcast_def send_all_eq)
  ultimately show ?thesis by (rule that)
qed

lemma handleMessageGetFile_serves:
  assumes "srv_inv s" and "GetOriginalKey (srv_store s) h = Some key" and "holds s key = Some b"
    and "map_of (Peers s) from = Some p" and "w_err (peer_out p) = None"
    and "enc_hdr G \<lparr>sh_ID = srv_ID s, sh_Key = key, sh_Size = int (length b)\<rparr> = Inr hdr"
  shows "handleMessageGetFile G s from h =
    (s\<lparr>Peers := AList.update from (p\<lparr>peer_out := (peer_out p)\<lparr>w_buf := w_buf (peer_out p) @
       IncomingStream # frame_of hdr b\<rparr>\<rparr>) (Peers s)\<rparr>, None)"
proof -
  note inv = srv_invD [OF assms(1)]
  have "store_Has (srv_store s) (disk s) (srv_ID s) key"
    "store_Read (srv_store s) (disk s) (srv_ID s) key = Inr (length b, bytes_reader b)"
    using Has_vault [OF inv(1)] Read_vault [OF inv, of key] assms(3) by (auto simp: holds_def)
  then show ?thesis
    using sendStream_frame [OF assms(5) drain_bytes_reader assms(6)] assms(2,4)
    by (simp add: handleMessageGetFile_def)
qed

text \<open>A sealed file that arrives in a stream is stored, and served from then on.\<close>

lemma receive_sealed:
  assumes "srv_inv s" and "valid_key (EncKey s)" and "length hdr < 2 ^ 15"
    and "dec_hdr G hdr = Inr \<lparr>sh_ID = i, sh_Key = key, sh_Size = int (length (seal (EncKey s) (fresh_iv f) d))\<rparr>"
    and "concat bs = IncomingStream # frame_of hdr (seal (EncKey s) (fresh_iv f) d)" and "[] \<notin> set bs"
    and "peer_in q = map (\<lambda>b. (b, ROk)) bs"
  shows "\<exists>rpc q' t rd. read_one q = (Inr rpc, q') \<and> rpc_Stream rpc \<and>
    handleStream G J (s\<lparr>Peers := AList.update a q' (Peers s)\<rparr>) a = Return (t, None) \<and>
    Get G t None key = (t, Served (Inr rd)) \<and> drain rd = (d, None)"
proof -
  have inv: "srv_inv (s\<lparr>Peers := ps\<rparr>)" for ps
    using assms(1) by (simp add: srv_inv_def)
  note recv = receive_stream [OF inv assms(4,3,5-7), where a = a and J = J]
  obtain rpc q' where q': "read_one q = (Inr rpc, q')" "rpc_Stream rpc"
    using recv by blast
  let ?s = "s\<lparr>Peers := AList.update a q' (Peers s)\<rparr>"
  obtain t where t: "handleStream G J ?s a = Return (t, None)" "srv_inv t" "EncKey t = EncKey s"
    "holds t key = Some (seal (EncKey s) (fresh_iv f) d)"
    using recv [of "AList.update a q' (Peers s)"] q' by (auto simp: update_conv')
  then have "drain (decryptOnTheFly t None (bytes_reader (seal (EncKey s) (fresh_iv f) d))) = (d, None)"
    using decryptOnTheFly_sealed [of t _ f d] assms(2) by simp
  with q' t Get_local [OF t(2,4), of G None] show ?thesis by blast
qed

end
