(* ===== verification/Node.thy ===== *)
theory Node
  imports ServerFacts
begin

text \<open>
  A running node: the goroutines that share one \<open>FileServer\<close> and its disk.  The user's calls, the message
  loop, the connections, the garbage collector and peer exchange are the labels of one step relation; what
  each does to the stored files is the abstract machine \<open>vault_step\<close>, which the node refines.
\<close>

section \<open>State and steps\<close>

text \<open>
  \<open>n_loop\<close> and \<open>n_gc\<close>: the goroutines of the message loop and of the collector run; \<open>n_cancelled\<close>: the context
  is done; \<open>n_pending\<close>: the calls of \<open>Get\<close> that wait, with their channel.
\<close>

record node =
  n_srv :: FileServer
  n_loop :: bool
  n_gc :: bool
  n_cancelled :: bool
  n_pending :: "(nat \<times> string) list"

datatype node_label =
    StartServer
  | DoStore entropy bool string reader
  | DoGet "(nat \<times> error) option" string
  | WakeUp nat wake
  | DoDelete string
  | DoClearStorage
  | DoClearKeyMapping
  | DoStop
  | CancelCtx
  | HandleRPC int RPC
  | LoopEnds
  | NewConn string reader writer bool
  | CleanupTick
  | GcEnds
  | PexStart
  | PexStop
  | PexTick
  | PexSweep int
  | PexRequest string

text \<open>
  \<open>Start\<close> listens, and begins the collector and the loop; when listening fails, \<open>main\<close> logs the error and goes on
  without them.  A call that panics has no successor: the process is gone.
\<close>

inductive node_step :: "gob \<Rightarrow> json \<Rightarrow> node \<Rightarrow> node_label \<Rightarrow> node \<Rightarrow> bool" for G J where
  start_server: "listener (Transport (n_srv n)) = NoListener \<Longrightarrow> 0 < cleanupInterval (GC (n_srv n)) \<Longrightarrow>
    ListenAndAccept net_listen (Transport (n_srv n)) = (t, None) \<Longrightarrow>
    node_step G J n StartServer (n\<lparr>n_srv := (n_srv n)\<lparr>Transport := t\<rparr>, n_loop := True, n_gc := True\<rparr>)"
| start_fails: "listener (Transport (n_srv n)) = NoListener \<Longrightarrow>
    ListenAndAccept net_listen (Transport (n_srv n)) = (t, Some e) \<Longrightarrow>
    node_step G J n StartServer (n\<lparr>n_srv := (n_srv n)\<lparr>Transport := t\<rparr>\<rparr>)"
| do_store: "Store G J (n_srv n) rnd c key r = (s', e) \<Longrightarrow>
    node_step G J n (DoStore rnd c key r) (n\<lparr>n_srv := s'\<rparr>)"
| do_get: "Get G (n_srv n) c key = (s', Served res) \<Longrightarrow>
    node_step G J n (DoGet c key) (n\<lparr>n_srv := s'\<rparr>)"
| do_get_wait: "Get G (n_srv n) c key = (s', Waiting_on ch) \<Longrightarrow>
    node_step G J n (DoGet c key) (n\<lparr>n_srv := s', n_pending := (ch, key) # n_pending n\<rparr>)"
| wake_up: "(ch, key) \<in> set (n_pending n) \<Longrightarrow> wake_enabled (n_srv n) ch w \<Longrightarrow>
    node_step G J n (WakeUp ch w) (n\<lparr>n_pending := filter (\<lambda>(c, k). c \<noteq> ch) (n_pending n)\<rparr>)"
| do_delete: "server_Delete (n_srv n) key = (s', e) \<Longrightarrow>
    node_step G J n (DoDelete key) (n\<lparr>n_srv := s'\<rparr>)"
| do_clear: "ClearStorage (n_srv n) = (s', e) \<Longrightarrow>
    node_step G J n DoClearStorage (n\<lparr>n_srv := s'\<rparr>)"
| do_clear_keys: "node_step G J n DoClearKeyMapping (n\<lparr>n_srv := ClearKeyMapping J (n_srv n)\<rparr>)"
| do_stop: "Stop (n_srv n) = Return s' \<Longrightarrow> node_step G J n DoStop (n\<lparr>n_srv := s'\<rparr>)"
| cancel_ctx: "node_step G J n CancelCtx (n\<lparr>n_cancelled := True\<rparr>)"
| handle_rpc: "n_loop n \<Longrightarrow> loop_rpc G J now (n_srv n) rpc = Return (s', dials) \<Longrightarrow>
    node_step G J n (HandleRPC now rpc) (n\<lparr>n_srv := s'\<rparr>)"
| loop_ends: "n_loop n \<Longrightarrow> quit_closed (n_srv n) \<or> n_cancelled n \<Longrightarrow>
    transport_Close (Transport (n_srv n)) = Return (t, e) \<Longrightarrow>
    node_step G J n LoopEnds (n\<lparr>n_srv := (n_srv n)\<lparr>Transport := t\<rparr>, n_loop := False\<rparr>)"
| new_conn: "handleConn (n_srv n) addr r w out = (s', c) \<Longrightarrow>
    node_step G J n (NewConn addr r w out) (n\<lparr>n_srv := s'\<rparr>)"
| cleanup_tick: "n_gc n \<Longrightarrow> performCleanup (GC (n_srv n)) (disk (n_srv n)) = Some (fs', stats) \<Longrightarrow>
    node_step G J n CleanupTick (n\<lparr>n_srv := (n_srv n)\<lparr>disk := fs'\<rparr>\<rparr>)"
| gc_ends: "n_gc n \<Longrightarrow> n_cancelled n \<or> gc_stopped (GC (n_srv n)) \<Longrightarrow>
    node_step G J n GcEnds (n\<lparr>n_gc := False\<rparr>)"
| pex_starts: "node_step G J n PexStart (n\<lparr>n_srv := EnablePeerExchange (n_srv n)\<rparr>)"
| pex_stops: "pex_Stop (Pex (n_srv n)) = Return p \<Longrightarrow>
    node_step G J n PexStop (n\<lparr>n_srv := (n_srv n)\<lparr>Pex := p\<rparr>\<rparr>)"
| pex_tick: "node_step G J n PexTick (n\<lparr>n_srv := exchangePeerLists G (n_srv n)\<rparr>)"
| pex_sweep: "node_step G J n (PexSweep now)
    (n\<lparr>n_srv := (n_srv n)\<lparr>Pex := cleanupOldPeers now (Pex (n_srv n))\<rparr>\<rparr>)"
| pex_request: "RequestPeerList G (n_srv n) addr = (s', e) \<Longrightarrow>
    node_step G J n (PexRequest addr) (n\<lparr>n_srv := s'\<rparr>)"

inductive_cases node_stepE: "node_step G J n l n'"

inductive node_run :: "gob \<Rightarrow> json \<Rightarrow> node \<Rightarrow> node_label list \<Rightarrow> node \<Rightarrow> bool" for G J where
  run_nil: "node_run G J n [] n"
| run_cons: "node_step G J n l n1 \<Longrightarrow> node_run G J n1 ls n2 \<Longrightarrow> node_run G J n (l # ls) n2"

text \<open>A server that was just built; no goroutine runs yet.\<close>

definition fresh_node :: "FileServer \<Rightarrow> node" where
  "fresh_node srv = \<lparr>n_srv = srv, n_loop = False, n_gc = False, n_cancelled = False, n_pending = []\<rparr>"

definition node_init :: "json \<Rightarrow> FileServerOpts \<Rightarrow> node \<Rightarrow> bool" where
  "node_init J opts n \<longleftrightarrow>
     o_PathTransformFunc opts = Some CASPathTransformFunc \<and>
     (\<exists>s0 rnd now fs srv. store_inv s0 fs \<and> Root s0 = o_StorageRoot opts \<and>
        NewFileServer J opts rnd now fs = Some srv \<and> n = fresh_node srv)"

section \<open>What a step keeps\<close>

text \<open>Identity, key, collector and root are never changed.\<close>

definition same_node :: "FileServer \<Rightarrow> FileServer \<Rightarrow> bool" where
  "same_node s t \<longleftrightarrow> srv_ID t = srv_ID s \<and> EncKey t = EncKey s \<and> GC t = GC s \<and>
     Root (srv_store t) = Root (srv_store s) \<and>
     PathTransformFunc (srv_store t) = PathTransformFunc (srv_store s)"

text \<open>The stored files, by node and file name.\<close>

abbreviation files :: "FileServer \<Rightarrow> string \<times> string \<Rightarrow> bytes option" where
  "files s \<equiv> vault (srv_store s) (disk s)"

lemma vault_Root: "Root s = Root t \<Longrightarrow> vault s = vault t"
  by (simp add: vault_def fun_eq_iff addr_path_def node_path_def)

text \<open>Steps that do not touch store, disk or waiters.\<close>

definition untouched :: "FileServer \<Rightarrow> FileServer \<Rightarrow> bool" where
  "untouched s t \<longleftrightarrow> same_node s t \<and> srv_store t = srv_store s \<and> disk t = disk s \<and>
     waiters t = waiters s \<and> next_ch t = next_ch s \<and> ready t = ready s"

lemma untouched_refl [simp]: "untouched s s"
  by (simp add: untouched_def same_node_def)

lemma untouched_Peers [simp]: "untouched s (s\<lparr>Peers := ps\<rparr>)"
  by (simp add: untouched_def same_node_def)

lemma broadcast_untouched: "untouched s (fst (broadcast G s msg))"
  using broadcast_frame [of G s msg] by auto

lemma HandlePeerExchange_untouched:
  assumes "HandlePeerExchange now s ps = (s', dials)"
  shows "untouched s s'"
proof -
  have "untouched s s'" if "handle_peers now s ps = (s', dials)" for ps dials
    using that
    by (induction now s ps arbitrary: dials rule: handle_peers.induct)
      (auto simp: untouched_def same_node_def split: if_splits prod.splits)
  with assms show ?thesis
    by (auto simp: HandlePeerExchange_def split: if_splits)
qed

lemma handleMessage_untouched:
  assumes "handleMessage G now s a msg = (s', dials, e)"
  shows "untouched s s'"
proof (cases msg)
  case (MessageGetFile i k)
  then have "\<exists>e. handleMessageGetFile G s a k = (s', e)"
    using assms by (auto simp: handleMessage_def split: prod.splits)
  then show ?thesis
    by (auto simp: handleMessageGetFile_def Let_def split: option.splits if_splits sum.splits prod.splits)
next
  case (MessagePeerExchange ps)
  with assms show ?thesis
    by (auto simp: handleMessage_def intro: HandlePeerExchange_untouched split: prod.splits)
qed (use assms in \<open>auto simp: handleMessage_def\<close>)

lemma exchangePeerLists_untouched: "untouched s (exchangePeerLists G s)"
  by (auto simp: exchangePeerLists_def broadcast_untouched split: option.splits)

lemma RequestPeerList_untouched: "RequestPeerList G s a = (s', e) \<Longrightarrow> untouched s s'"
  by (auto simp: RequestPeerList_def split: if_splits option.splits sum.splits prod.splits)


text \<open>No waiting channel is lost: it stays registered or is signalled.\<close>

definition signals_kept :: "FileServer \<Rightarrow> FileServer \<Rightarrow> bool" where
  "signals_kept s t \<longleftrightarrow> set (ready s) \<subseteq> set (ready t) \<and>
     (\<forall>h. set (waiting s h) \<subseteq> set (waiting t h) \<union> set (ready t))"

lemma signals_kept_same: "waiters t = waiters s \<Longrightarrow> ready t = ready s \<Longrightarrow> signals_kept s t"
  by (simp add: signals_kept_def waiting_def)

lemma signals_kept_notify: "wait_inv s \<Longrightarrow> signals_kept s (notifyFileWaiter s h)"
  by (auto simp: signals_kept_def notify_effect)

text \<open>
  What each kind of step does, in one predicate: the invariant and the identity are kept, no channel is
  lost, and the files are the ones given.
\<close>

definition step_ok :: "FileServer \<Rightarrow> FileServer \<Rightarrow> (string \<times> string \<rightharpoonup> bytes) \<Rightarrow> bool" where
  "step_ok s t V \<longleftrightarrow> node_inv t \<and> same_node s t \<and> signals_kept s t \<and> files t = V"

lemma step_ok_untouched:
  assumes "node_inv s" and "untouched s t"
  shows "step_ok s t (files s)"
proof -
  have "node_inv t"
    using assms by (simp add: untouched_def same_node_def node_inv_def srv_inv_def wait_inv_def)
  with assms(2) show ?thesis
    by (simp add: step_ok_def untouched_def signals_kept_same)
qed

lemma step_ok_disk:
  assumes "node_inv s" and "store_inv (srv_store s) fs'"
  shows "step_ok s (s\<lparr>disk := fs'\<rparr>) (vault (srv_store s) fs')"
  using assms
  by (simp add: step_ok_def same_node_def signals_kept_same node_inv_def srv_inv_def wait_inv_def)

lemma step_ok_learn:
  assumes "node_inv s" and "store_inv (srv_store s) fs'"
  shows "step_ok s (s\<lparr>srv_store := learn (srv_store s) key, disk := fs'\<rparr>) (vault (srv_store s) fs')"
  using assms
  by (simp add: step_ok_def same_node_def signals_kept_same node_inv_def srv_inv_def wait_inv_def)
    (simp add: learn_def)

lemma step_ok_Peers [simp]: "step_ok s (t\<lparr>Peers := ps\<rparr>) V = step_ok s t V"
  by (simp add: step_ok_def same_node_def signals_kept_def waiting_def)

lemma step_ok_notify:
  assumes "step_ok s t V"
  shows "step_ok s (notifyFileWaiter t h) V"
proof -
  have w: "wait_inv t" using assms by (simp add: step_ok_def node_inv_def)
  have "GC (notifyFileWaiter t h) = GC t" "EncKey (notifyFileWaiter t h) = EncKey t"
    by (simp_all add: notifyFileWaiter_def split: option.split)
  then have "same_node s (notifyFileWaiter t h)"
    using assms by (simp add: step_ok_def same_node_def)
  moreover have "signals_kept s (notifyFileWaiter t h)"
    using assms signals_kept_notify [OF w, of h] unfolding step_ok_def signals_kept_def by blast
  ultimately show ?thesis
    using assms by (simp add: step_ok_def node_inv_notify)
qed

lemma node_invD:
  assumes "node_inv s"
  shows "store_inv (srv_store s) (disk s)" and "valid_id (srv_ID s)" and "wait_inv s"
  using assms by (simp_all add: node_inv_def srv_inv_def)

lemma receive_file_step:
  assumes "node_inv s" and "receive_file J s h p = (s', p', e)"
  shows "\<exists>b. step_ok s s' ((files s)((srv_ID s, HashKey (sh_Key h)) \<mapsto> b))"
proof -
  note inv = node_invD [OF assms(1)]
  let ?r = "LimitReader (nat (sh_Size h)) (peer_in p)"
  obtain fs' where fs': "store_Write J (srv_store s) (disk s) (srv_ID s) (sh_Key h) ?r =
      (learn (srv_store s) (sh_Key h), fs', case drain ?r of (d, None) \<Rightarrow> Inr (length d) | (d, Some e) \<Rightarrow> Inl e)"
    "store_inv (srv_store s) fs'"
    "vault (srv_store s) fs' = (files s)((srv_ID s, HashKey (sh_Key h)) \<mapsto> fst (drain ?r))"
    using Write_vault [OF inv(1,2)] by metis
  let ?t = "s\<lparr>srv_store := learn (srv_store s) (sh_Key h), disk := fs'\<rparr>"
  have "step_ok s ?t ((files s)((srv_ID s, HashKey (sh_Key h)) \<mapsto> fst (drain ?r)))"
    using step_ok_learn [OF assms(1) fs'(2)] fs'(3) by simp
  moreover have "s' = ?t \<or> s' = notifyFileWaiter ?t (sh_Key h)"
    using assms(2) fs'(1) by (auto simp: receive_file_def Let_def split: prod.splits sum.splits option.splits)
  ultimately show ?thesis
    using step_ok_notify by blast
qed

lemma handleStream_step:
  assumes "node_inv s" and "handleStream G J s a = Return (s', e)"
  shows "step_ok s s' (files s) \<or> (\<exists>key b. step_ok s s' ((files s)((srv_ID s, HashKey key) \<mapsto> b)))"
proof (cases "map_of (Peers s) a")
  case None
  with assms show ?thesis by (simp add: handleStream_def step_ok_untouched)
next
  case (Some p)
  then obtain s1 p1 p2 where r: "receive_header G J s p = Return (s1, p1, e)"
    and s': "s' = s1\<lparr>Peers := AList.update a p2 (Peers s1)\<rparr>"
    using assms(2) by (auto simp: handleStream_def split: go.splits prod.splits)
  consider "s1 = s" | h p0 where "receive_file J s h p0 = (s1, p1, e)"
    using r by (auto simp: receive_header_def Let_def split: prod.splits sum.splits if_splits)
  then show ?thesis
  proof cases
    case 1
    with s' assms(1) show ?thesis by (simp add: step_ok_untouched)
  next
    case 2
    with receive_file_step [OF assms(1)] s' show ?thesis
      by (metis step_ok_Peers)
  qed
qed

lemma loop_rpc_step:
  assumes "node_inv s" and "loop_rpc G J now s rpc = Return (s', dials)"
  shows "step_ok s s' (files s) \<or>
    rpc_Stream rpc \<and> (\<exists>key b. step_ok s s' ((files s)((srv_ID s, HashKey key) \<mapsto> b)))"
proof (cases "rpc_Stream rpc")
  case True
  then obtain e where "handleStream G J s (rpc_From rpc) = Return (s', e)"
    using assms(2) by (auto simp: loop_rpc_def split: go.splits prod.splits)
  with True handleStream_step [OF assms(1)] show ?thesis by blast
next
  case False
  with assms(2) have "untouched s s'"
    using handleMessage_untouched by (auto simp: loop_rpc_def Let_def split: prod.splits)
  with assms(1) show ?thesis by (simp add: step_ok_untouched)
qed

lemma Store_step:
  assumes "node_inv s" and "Store G J s rnd c key r = (s', e)"
  shows "step_ok s s' ((files s)((srv_ID s, HashKey key) \<mapsto> w_buf (fst (CopyEncrypt (EncKey s) rnd r new_buffer))))"
proof -
  note inv = node_invD [OF assms(1)]
  obtain fs' where fs': "store_WriteEncrypt J (srv_store s) (disk s) rnd (EncKey s) (srv_ID s) key r =
      (learn (srv_store s) key, fs', snd (CopyEncrypt (EncKey s) rnd r new_buffer))"
    "store_inv (srv_store s) fs'"
    "vault (srv_store s) fs' = (files s)
       ((srv_ID s, HashKey key) \<mapsto> w_buf (fst (CopyEncrypt (EncKey s) rnd r new_buffer)))"
    using WriteEncrypt_vault [OF inv(1,2)] by blast
  have "\<exists>ps. s' = s\<lparr>srv_store := learn (srv_store s) key, disk := fs', Peers := ps\<rparr> \<or>
      s' = s\<lparr>srv_store := learn (srv_store s) key, disk := fs'\<rparr>"
    using assms(2) fs'(1) by (auto simp: Store_def Let_def split: sum.splits)
  then show ?thesis
    using step_ok_learn [OF assms(1) fs'(2), of key] fs'(3) step_ok_Peers by auto
qed

lemma delete_step:
  assumes "node_inv s" and "server_Delete s key = (s', e)"
  shows "step_ok s s' (case files s (srv_ID s, HashKey key) of
      None \<Rightarrow> files s
    | Some _ \<Rightarrow> (\<lambda>(n, h). if n = srv_ID s \<and> take 5 h = take 5 (HashKey key) then None else files s (n, h)))"
proof -
  note inv = node_invD [OF assms(1)]
  obtain fs' where fs': "store_Delete (srv_store s) (disk s) (srv_ID s) key = (fs', None)"
    "store_inv (srv_store s) fs'"
    "vault (srv_store s) fs' =
      (\<lambda>(n, h). if n = srv_ID s \<and> take 5 h = take 5 (HashKey key) then None else files s (n, h))"
    using Delete_vault [OF inv(1,2)] by blast
  show ?thesis
  proof (cases "files s (srv_ID s, HashKey key)")
    case None
    with assms(2) Has_vault [OF inv(1)] have "s' = s" by (simp add: server_Delete_def)
    with None assms(1) show ?thesis by (simp add: step_ok_untouched)
  next
    case (Some b)
    with assms(2) Has_vault [OF inv(1)] fs'(1) have "s' = s\<lparr>disk := fs'\<rparr>"
      by (simp add: server_Delete_def)
    with Some step_ok_disk [OF assms(1) fs'(2)] fs'(3) show ?thesis by simp
  qed
qed

lemma clear_step:
  assumes "node_inv s" and "ClearStorage s = (s', e)"
  shows "step_ok s s' (if e = None then Map.empty else files s)"
proof -
  note inv = node_invD [OF assms(1)]
  show ?thesis
  proof (cases "ends_with_dot (Root (srv_store s))")
    case True
    have "Root (srv_store s) \<noteq> []"
      using store_inv_D(2) [OF inv(1)] by (simp add: good_root_def)
    with True assms have "s' = s" "e \<noteq> None"
      by (auto simp: ClearStorage_def store_Clear_def os_RemoveAll_def)
    then show ?thesis using step_ok_untouched [OF assms(1) untouched_refl] by auto
  next
    case False
    obtain fs' where "store_Clear (srv_store s) (disk s) = (fs', None)" "store_inv (srv_store s) fs'"
      "vault (srv_store s) fs' = Map.empty"
      using Clear_vault [OF inv(1) False] by blast
    with assms(2) step_ok_disk [OF assms(1), of fs'] show ?thesis
      by (auto simp: ClearStorage_def)
  qed
qed

lemma clear_keys_step:
  assumes "node_inv s"
  shows "step_ok s (ClearKeyMapping J s) (files s)"
proof -
  note inv = node_invD [OF assms]
  let ?st = "(srv_store s)\<lparr>keyMap := []\<rparr>"
  have "store_inv ?st (disk s)" using inv(1) by simp
  then obtain fs' where fs': "saveKeyMap J ?st (disk s) = (fs', None)"
    "put_file (disk s) (path_of (Root ?st)) ''metadata.json'' (MarshalIndent J (keyMap ?st)) fs'"
    using saveKeyMap_put by blast
  have st: "store_inv (srv_store s) fs'" "vault (srv_store s) fs' = files s"
    using store_inv_meta [OF inv(1)] vault_meta fs'(2) by auto
  have "ClearKeyMapping J s = s\<lparr>srv_store := ?st, disk := fs'\<rparr>"
    using fs'(1) by (simp add: ClearKeyMapping_def ClearKeyMap_def)
  then show ?thesis
    using assms st
    by (simp add: step_ok_def same_node_def signals_kept_same node_inv_def srv_inv_def wait_inv_def)
qed


lemma Get_step:
  assumes "node_inv s" and "Get G s c key = (s', res)"
  shows "step_ok s s' (files s) \<and>
    (case res of Served _ \<Rightarrow> True | Waiting_on ch \<Rightarrow> ch \<in> set (waiting s' (HashKey key)))"
proof -
  note inv = node_invD [OF assms(1)]
  consider "s' = s" "\<exists>x. res = Served x" |
      "holds s key = None" "length (waiting s (HashKey key)) < maxWaitersPerKey"
    using assms(2) Has_vault [OF inv(1)]
    by (cases "length (waiting s (HashKey key)) < maxWaitersPerKey")
      (auto simp: Get_def holds_def registerFileWaiter_def Let_def split: if_splits prod.splits)
  then show ?thesis
  proof cases
    case 1
    with assms(1) show ?thesis by (auto simp: step_ok_untouched)
  next
    case 2
    obtain t where t: "registerFileWaiter s key = (t, Inr (next_ch s))" "wait_inv t" "ready t = ready s"
      using registerFileWaiter_ok [OF inv(3) 2(2)] by blast
    then have w: "waiting t h = (if h = HashKey key then waiting s h @ [next_ch s] else waiting s h)" for h
      by (auto simp: registerFileWaiter_def Let_def waiting_def update_conv' split: if_splits)
    have keep: "srv_store t = srv_store s" "disk t = disk s" "srv_ID t = srv_ID s" "EncKey t = EncKey s" "GC t = GC s"
      using t(1) by (auto simp: registerFileWaiter_def Let_def split: if_splits)
    have "step_ok s t (files s)"
      using assms(1) t(2,3) by (auto simp: step_ok_def node_inv_def srv_inv_def same_node_def signals_kept_def keep w)
    moreover obtain ps where "fst (broadcast G t (MessageGetFile (srv_ID s) (HashKey key))) = t\<lparr>Peers := ps\<rparr>"
      using broadcast_frame by blast
    then have "s' = t\<lparr>Peers := ps\<rparr>" "res = Waiting_on (next_ch s)"
      using assms(2) t(1) 2(1) Has_vault [OF inv(1)] by (auto simp: Get_def holds_def)
    ultimately show ?thesis
      using w [of "HashKey key"] by (simp add: waiting_def)
  qed
qed

text \<open>The collector works on the node's own store.\<close>

definition gc_agrees :: "FileServer \<Rightarrow> bool" where
  "gc_agrees s \<longleftrightarrow> gc_nodeID (GC s) = srv_ID s \<and> integrityEnabled (GC s) \<and>
     Root (gc_store (GC s)) = Root (srv_store s) \<and>
     PathTransformFunc (gc_store (GC s)) = PathTransformFunc (srv_store s)"

text \<open>The files that go with a corrupted one of the same directory.\<close>

definition spoiled :: "string \<Rightarrow> (string \<times> string \<rightharpoonup> bytes) \<Rightarrow> string \<Rightarrow> bool" where
  "spoiled me V h \<longleftrightarrow> (\<exists>h' b. V (me, h') = Some b \<and> corrupted h' b \<and> hash_blocks h' = hash_blocks h)"

lemma gc_agrees_store:
  assumes "gc_agrees s"
  shows "store_inv (gc_store (GC s)) fs = store_inv (srv_store s) fs"
    and "vault (gc_store (GC s)) fs = vault (srv_store s) fs"
proof -
  obtain m where "gc_store (GC s) = (srv_store s)\<lparr>keyMap := m\<rparr>"
    using assms that [of "keyMap (gc_store (GC s))"]
    by (cases "gc_store (GC s)"; cases "srv_store s") (simp add: gc_agrees_def)
  then show "store_inv (gc_store (GC s)) fs = store_inv (srv_store s) fs"
    and "vault (gc_store (GC s)) fs = vault (srv_store s) fs" by simp_all
qed

lemma cleanup_total:
  assumes "node_inv s" and "gc_agrees s"
  shows "\<exists>fs' stats. performCleanup (GC s) (disk s) = Some (fs', stats) \<and>
    step_ok s (s\<lparr>disk := fs'\<rparr>)
      (\<lambda>(n, h). if n = srv_ID s \<and> spoiled (srv_ID s) (files s) h then None else files s (n, h))"
proof -
  note inv = node_invD [OF assms(1)] and st = gc_agrees_store [OF assms(2)]
  have gc: "gc_nodeID (GC s) = srv_ID s" "integrityEnabled (GC s)"
    using assms(2) by (simp_all add: gc_agrees_def)
  obtain fs' stats where fs': "performCleanup (GC s) (disk s) = Some (fs', stats)" "store_inv (srv_store s) fs'"
    "\<forall>n h. vault (srv_store s) fs' (n, h) =
      (if n = srv_ID s \<and> tainted (gc_store (GC s)) (disk s) (srv_ID s) h then None else files s (n, h))"
    using performCleanup_cases [of "GC s" "disk s", unfolded st gc(1)] inv gc(2) by auto
  then have "vault (srv_store s) fs' =
      (\<lambda>(n, h). if n = srv_ID s \<and> spoiled (srv_ID s) (files s) h then None else files s (n, h))"
    by (auto simp: fun_eq_iff st tainted_def spoiled_def)
  with step_ok_disk [OF assms(1) fs'(2)] fs'(1) show ?thesis by auto
qed

section \<open>The abstract machine\<close>

text \<open>The labels of steps that work on the files.\<close>

fun may_change :: "node_label \<Rightarrow> bool" where
  "may_change (DoStore rnd c key r) \<longleftrightarrow> True"
| "may_change (DoDelete key) \<longleftrightarrow> True"
| "may_change DoClearStorage \<longleftrightarrow> True"
| "may_change (HandleRPC now rpc) \<longleftrightarrow> True"
| "may_change CleanupTick \<longleftrightarrow> True"
| "may_change _ \<longleftrightarrow> False"

text \<open>
  The files of a node with identifier \<open>me\<close> and key \<open>k\<close> change only by storing, receiving, deleting, clearing
  and collecting.
\<close>

inductive vault_step ::
  "string \<Rightarrow> bytes \<Rightarrow> (string \<times> string \<rightharpoonup> bytes) \<Rightarrow> node_label \<Rightarrow> (string \<times> string \<rightharpoonup> bytes) \<Rightarrow> bool"
  for me k where
  v_store: "vault_step me k V (DoStore rnd c key r)
    (V((me, HashKey key) \<mapsto> w_buf (fst (CopyEncrypt k rnd r new_buffer))))"
| v_receive: "rpc_Stream rpc \<Longrightarrow> vault_step me k V (HandleRPC now rpc) (V((me, HashKey key) \<mapsto> b))"
| v_handle: "vault_step me k V (HandleRPC now rpc) V"
| v_delete: "V (me, HashKey key) \<noteq> None \<Longrightarrow> vault_step me k V (DoDelete key)
    (\<lambda>(n, h). if n = me \<and> take 5 h = take 5 (HashKey key) then None else V (n, h))"
| v_delete_missing: "V (me, HashKey key) = None \<Longrightarrow> vault_step me k V (DoDelete key) V"
| v_clear: "vault_step me k V DoClearStorage Map.empty"
| v_clear_fails: "vault_step me k V DoClearStorage V"
| v_collect: "vault_step me k V CleanupTick
    (\<lambda>(n, h). if n = me \<and> spoiled me V h then None else V (n, h))"
| v_silent: "\<not> may_change l \<Longrightarrow> vault_step me k V l V"

inductive_cases vault_stepE: "vault_step me k V l V'"

text \<open>The invariant of a node: a request that waits is registered under its hash, or has been signalled.\<close>

definition pending_ok :: "node \<Rightarrow> bool" where
  "pending_ok n \<longleftrightarrow> (\<forall>(ch, key) \<in> set (n_pending n).
     ch \<in> set (waiting (n_srv n) (HashKey key)) \<or> ch \<in> set (ready (n_srv n)))"

definition node_ok :: "node \<Rightarrow> bool" where
  "node_ok n \<longleftrightarrow> node_inv (n_srv n) \<and> gc_agrees (n_srv n) \<and> pending_ok n"

lemma pending_ok_kept:
  assumes "pending_ok n" and "signals_kept (n_srv n) (n_srv n')" and "set (n_pending n') \<subseteq> set (n_pending n)"
  shows "pending_ok n'"
  using assms unfolding pending_ok_def signals_kept_def by blast

lemma gc_agrees_same: "gc_agrees s \<Longrightarrow> same_node s t \<Longrightarrow> gc_agrees t"
  by (simp add: gc_agrees_def same_node_def)

text \<open>A step that changes the files as given keeps the invariant.\<close>

lemma node_ok_step_ok:
  assumes "node_ok n" and "step_ok (n_srv n) (n_srv n') V" and "set (n_pending n') \<subseteq> set (n_pending n)"
  shows "node_ok n' \<and> same_node (n_srv n) (n_srv n') \<and> files (n_srv n') = V"
  using assms pending_ok_kept [of n n'] gc_agrees_same [of "n_srv n" "n_srv n'"]
  by (simp add: node_ok_def step_ok_def)


text \<open>Steps that leave the files alone.\<close>

lemma node_silent:
  assumes "node_ok n" and "untouched (n_srv n) (n_srv n')" and "set (n_pending n') \<subseteq> set (n_pending n)"
  shows "node_ok n' \<and> same_node (n_srv n) (n_srv n') \<and> files (n_srv n') = files (n_srv n)"
  using assms by (intro node_ok_step_ok) (simp_all add: node_ok_def step_ok_untouched)

lemma node_get_waits:
  assumes "node_ok n" and "Get G (n_srv n) c key = (s', Waiting_on ch)"
    and "n' = n\<lparr>n_srv := s', n_pending := (ch, key) # n_pending n\<rparr>"
  shows "node_ok n' \<and> same_node (n_srv n) s' \<and> files s' = files (n_srv n)"
proof -
  have ok: "step_ok (n_srv n) s' (files (n_srv n))" "ch \<in> set (waiting s' (HashKey key))"
    using Get_step [OF _ assms(2)] assms(1) by (simp_all add: node_ok_def)
  then have *: "node_ok (n\<lparr>n_srv := s'\<rparr>) \<and> same_node (n_srv n) s' \<and> files s' = files (n_srv n)"
    using node_ok_step_ok [OF assms(1), of "n\<lparr>n_srv := s'\<rparr>"] by simp
  with ok(2) show ?thesis
    by (auto simp: node_ok_def pending_ok_def assms(3))
qed

lemma quiet_step_effect:
  assumes "node_ok n" and "node_step G J n l n'" and "\<not> may_change l"
  shows "node_ok n' \<and> same_node (n_srv n) (n_srv n') \<and> files (n_srv n') = files (n_srv n)"
proof -
  have inv: "node_inv (n_srv n)" using assms(1) by (simp add: node_ok_def)
  note silent = node_silent [OF assms(1), of n'] and by_effect = node_ok_step_ok [OF assms(1), of n']
  from assms(2) show ?thesis
  proof cases
    case (do_get c key s' res)
    then show ?thesis using by_effect [of "files (n_srv n)"] Get_step [OF inv] by auto
  next
    case (do_get_wait c key s' ch)
    then show ?thesis using node_get_waits [OF assms(1)] by auto
  next
    case do_clear_keys
    then show ?thesis using by_effect [of "files (n_srv n)"] clear_keys_step [OF inv, of J] by auto
  next
    case (new_conn addr r w out s' c)
    then have "s' = OnPeer (n_srv n) (NewTCPPeer addr r w out)" by (simp add: handleConn_result)
    with new_conn show ?thesis by (intro silent) (auto simp: OnPeer_def)
  next
    case pex_tick
    then show ?thesis by (intro silent) (auto simp: exchangePeerLists_untouched)
  next
    case (pex_request addr s' e)
    then show ?thesis by (intro silent) (auto intro: RequestPeerList_untouched)
  qed (use assms(3) in simp; fail | intro silent;
        auto simp: untouched_def same_node_def EnablePeerExchange_def Stop_def split: if_splits)+
qed

lemma node_step_effect:
  assumes "node_ok n" and "node_step G J n l n'"
  shows "node_ok n' \<and> same_node (n_srv n) (n_srv n') \<and>
    vault_step (srv_ID (n_srv n)) (EncKey (n_srv n)) (files (n_srv n)) l (files (n_srv n'))"
proof (cases "may_change l")
  case False
  with quiet_step_effect [OF assms] show ?thesis by (simp add: v_silent)
next
  case True
  let ?s = "n_srv n"
  have inv: "node_inv ?s" "gc_agrees ?s" using assms(1) by (simp_all add: node_ok_def)
  note by_effect = node_ok_step_ok [OF assms(1), of n']
  from assms(2) show ?thesis
  proof cases
    case (do_store rnd c key r s' e)
    then show ?thesis
      using by_effect [OF Store_step [OF inv(1)]] by (auto intro: v_store)
  next
    case (do_delete key s' e)
    then have "step_ok ?s (n_srv n') (case files ?s (srv_ID ?s, HashKey key) of None \<Rightarrow> files ?s
      | Some _ \<Rightarrow> (\<lambda>(n, h). if n = srv_ID ?s \<and> take 5 h = take 5 (HashKey key) then None else files ?s (n, h)))"
      using delete_step [OF inv(1)] by auto
    with by_effect do_delete show ?thesis
      by (cases "files ?s (srv_ID ?s, HashKey key)") (auto intro: v_delete v_delete_missing)
  next
    case (do_clear s' e)
    then show ?thesis
      using by_effect [OF clear_step [OF inv(1)]] by (auto intro: v_clear v_clear_fails)
  next
    case (handle_rpc now rpc s' dials)
    then show ?thesis
      using by_effect loop_rpc_step [OF inv(1) handle_rpc(4)] by (auto intro: v_receive v_handle)
  next
    case (cleanup_tick fs' stats)
    then show ?thesis
      using by_effect [of "\<lambda>(n, h). if n = srv_ID ?s \<and> spoiled (srv_ID ?s) (files ?s) h then None else files ?s (n, h)"]
        cleanup_total [OF inv] v_collect [of "srv_ID ?s" "EncKey ?s" "files ?s"] by simp
  qed (use True in simp_all)
qed

lemma NewFileServer_node:
  assumes "store_inv s0 fs" and "Root s0 = o_StorageRoot opts"
    and "o_PathTransformFunc opts = Some CASPathTransformFunc" and "NewFileServer J opts rnd now fs = Some srv"
  shows "node_inv srv" and "gc_agrees srv" and "\<exists>m. srv_store srv = s0\<lparr>keyMap := m\<rparr>"
proof -
  note inv = store_inv_D [OF assms(1)]
  let ?o = "\<lparr>opt_Root = o_StorageRoot opts, opt_PathTransformFunc = o_PathTransformFunc opts\<rparr>"
  have "o_StorageRoot opts \<noteq> []"
    using inv(2) assms(2) by (simp add: good_root_def)
  then obtain m where "NewStore J ?o fs = \<lparr>Root = Root s0, PathTransformFunc = CASPathTransformFunc, keyMap = m\<rparr>"
    using NewStore_keeps [of ?o J fs] assms(2,3) by auto
  then have m: "NewStore J ?o fs = s0\<lparr>keyMap := m\<rparr>"
    using inv(3) by (cases s0) simp
  show "node_inv srv" and "gc_agrees srv" and "\<exists>m. srv_store srv = s0\<lparr>keyMap := m\<rparr>"
    using assms(1,4) m
    by (auto simp: NewFileServer_def NewGarbageCollector_def Let_def node_inv_def srv_inv_def wait_inv_def
        gc_agrees_def split: if_splits sum.splits option.splits)
qed

lemma node_init_ok:
  assumes "node_init J opts n"
  shows "node_ok n"
proof -
  obtain s0 rnd now fs srv where *: "o_PathTransformFunc opts = Some CASPathTransformFunc"
    "store_inv s0 fs" "Root s0 = o_StorageRoot opts" "NewFileServer J opts rnd now fs = Some srv"
    and "n = fresh_node srv"
    using assms by (auto simp: node_init_def)
  with NewFileServer_node [OF *(2,3,1,4)] show ?thesis
    by (simp add: node_ok_def pending_ok_def fresh_node_def)
qed

lemma NewFileServer_key: "NewFileServer J opts rnd now fs = Some srv \<Longrightarrow> EncKey srv = o_EncKey opts"
  by (auto simp: NewFileServer_def Let_def split: sum.splits option.splits)

interpretation nodes: machine "node_init J opts" "node_step G J" node_ok for G J opts
  by unfold_locales (use node_init_ok node_step_effect in blast)+

section \<open>What survives a run\<close>

text \<open>Steps seen on the server alone, whatever else of the node runs.\<close>

definition srv_step :: "gob \<Rightarrow> json \<Rightarrow> FileServer \<Rightarrow> FileServer \<Rightarrow> bool" where
  "srv_step G J s t \<longleftrightarrow> (\<exists>n l n'. node_step G J n l n' \<and> n_srv n = s \<and> n_pending n = [] \<and> n_srv n' = t)"

abbreviation srv_run :: "gob \<Rightarrow> json \<Rightarrow> FileServer \<Rightarrow> FileServer \<Rightarrow> bool" where
  "srv_run G J \<equiv> (srv_step G J)\<^sup>*\<^sup>*"

lemma srv_stepI: "node_step G J (fresh_node s) l n' \<Longrightarrow> srv_step G J s (n_srv n')"
  unfolding srv_step_def fresh_node_def by (metis node.select_convs(1,5))

lemma srv_run_inv:
  assumes "srv_run G J s t" and "node_inv s" and "gc_agrees s"
  shows "node_inv t \<and> gc_agrees t \<and> same_node s t"
  using assms
proof (induction rule: rtranclp_induct)
  case base
  then show ?case by (simp add: same_node_def)
next
  case (step t u)
  obtain n l n' where n: "node_step G J n l n'" "n_srv n = t" "n_pending n = []" "n_srv n' = u"
    using step.hyps(2) by (auto simp: srv_step_def)
  with step have "node_ok n" by (simp add: node_ok_def pending_ok_def)
  from node_step_effect [OF this n(1)] step show ?case
    by (simp add: n node_ok_def same_node_def)
qed

text \<open>The steps that can remove a file, and those that can replace it.\<close>

fun removes :: "string \<Rightarrow> node_label \<Rightarrow> bool" where
  "removes h (DoDelete key) \<longleftrightarrow> take 5 h = take 5 (HashKey key)"
| "removes h DoClearStorage \<longleftrightarrow> True"
| "removes h CleanupTick \<longleftrightarrow> True"
| "removes h _ \<longleftrightarrow> False"

fun replaces :: "string \<Rightarrow> node_label \<Rightarrow> bool" where
  "replaces h (DoStore rnd c key r) \<longleftrightarrow> HashKey key = h"
| "replaces h (HandleRPC now rpc) \<longleftrightarrow> rpc_Stream rpc"
| "replaces h _ \<longleftrightarrow> False"

lemma vault_step_keeps:
  assumes "vault_step me k V l V'" and "\<not> removes h l" and "V (me, h) \<noteq> None"
  shows "V' (me, h) \<noteq> None" and "\<not> replaces h l \<Longrightarrow> V' (me, h) = V (me, h)"
  using assms by (auto elim!: vault_stepE)

lemma vault_step_others:
  assumes "vault_step me k V l V'" and "l \<noteq> DoClearStorage" and "n \<noteq> me"
  shows "V' (n, h) = V (n, h)"
  using assms by (auto elim!: vault_stepE)

lemma node_run_keeps:
  assumes "node_run G J n ls n'" and "node_ok n" and "list_all (\<lambda>l. \<not> removes (HashKey key) l) ls"
    and "holds (n_srv n) key \<noteq> None"
  shows "node_ok n' \<and> same_node (n_srv n) (n_srv n') \<and> holds (n_srv n') key \<noteq> None \<and>
    (list_all (\<lambda>l. \<not> replaces (HashKey key) l) ls \<longrightarrow> holds (n_srv n') key = holds (n_srv n) key)"
  using assms
proof (induction rule: node_run.induct)
  case (run_nil n)
  then show ?case by (simp add: same_node_def)
next
  case (run_cons n l n1 ls n2)
  note eff = node_step_effect [OF run_cons.prems(1) run_cons.hyps(1)]
  have id: "srv_ID (n_srv n1) = srv_ID (n_srv n)" using eff by (simp add: same_node_def)
  have step: "vault_step (srv_ID (n_srv n)) (EncKey (n_srv n)) (files (n_srv n)) l (files (n_srv n1))"
    and keep: "\<not> removes (HashKey key) l" "files (n_srv n) (srv_ID (n_srv n), HashKey key) \<noteq> None"
    using eff run_cons.prems(2,3) by (simp_all add: holds_def)
  have "holds (n_srv n1) key \<noteq> None"
    "\<not> replaces (HashKey key) l \<Longrightarrow> holds (n_srv n1) key = holds (n_srv n) key"
    using vault_step_keeps [OF step keep] by (simp_all add: holds_def id)
  with run_cons.IH eff run_cons.prems(2) show ?case
    by (auto simp: same_node_def)
qed

end
