(* ===== verification/KeyMapLock.thy ===== *)
theory KeyMapLock
  imports StoreFacts
begin

text \<open>
  Concurrent writers of one store (\<open>internal/storage/store.go\<close>): the server's loop and the command line
  call \<open>Write\<close>, \<open>WriteEncrypt\<close> and \<open>ClearKeyMap\<close> on the same \<open>Store\<close>.  Each changes the key map under the
  write lock of \<open>keyMapMu\<close>, and then saves it under the read lock.  A thread is the phase it is in; the
  storage root exists (so that \<open>MkdirAll\<close> does nothing) and the disk does not fail.
\<close>

section \<open>Threads\<close>

datatype km_change = SetKey string string | ClearAll

fun km_apply :: "km_change \<Rightarrow> keymap \<Rightarrow> keymap" where
  "km_apply (SetKey hash key) m = AList.update hash key m"
| "km_apply ClearAll m = []"

text \<open>
  The phases between the two locks and inside \<open>saveKeyMap\<close>: the map is changed, the read lock is held, the
  document is made, the file is opened with truncation.
\<close>

datatype km_phase = Outside | Changed | ReadLocked | Marshalled bytes | Truncated bytes

fun holds_rlock :: "km_phase \<Rightarrow> bool" where
  "holds_rlock Outside = False"
| "holds_rlock Changed = False"
| "holds_rlock _ = True"

record km_state =
  km_map :: keymap
  km_file :: "bytes option"
  km_threads :: "km_phase list"

datatype km_label = Change km_change | RLock | Marshal | OpenTrunc | WriteUnlock

definition km_at :: "km_state \<Rightarrow> nat \<Rightarrow> km_phase \<Rightarrow> bool" where
  "km_at s t ph \<longleftrightarrow> t < length (km_threads s) \<and> km_threads s ! t = ph"

definition km_goto :: "nat \<Rightarrow> km_phase \<Rightarrow> km_state \<Rightarrow> km_state" where
  "km_goto t ph s = s\<lparr>km_threads := (km_threads s)[t := ph]\<rparr>"

text \<open>
  The write lock excludes the read lock; read locks are shared.  \<open>os.WriteFile\<close> opens with truncation and
  then writes at the start of the file.
\<close>

inductive km_step :: "json \<Rightarrow> km_state \<Rightarrow> nat \<times> km_label \<Rightarrow> km_state \<Rightarrow> bool" for J where
  change: "km_at s t Outside \<Longrightarrow> list_all (\<lambda>ph. \<not> holds_rlock ph) (km_threads s) \<Longrightarrow>
    km_step J s (t, Change c) (km_goto t Changed (s\<lparr>km_map := km_apply c (km_map s)\<rparr>))"
| rlock: "km_at s t Changed \<Longrightarrow> km_step J s (t, RLock) (km_goto t ReadLocked s)"
| marshal: "km_at s t ReadLocked \<Longrightarrow> km_step J s (t, Marshal) (km_goto t (Marshalled (MarshalIndent J (km_map s))) s)"
| open_trunc: "km_at s t (Marshalled d) \<Longrightarrow>
    km_step J s (t, OpenTrunc) (km_goto t (Truncated d) (s\<lparr>km_file := Some []\<rparr>))"
| write_unlock: "km_at s t (Truncated d) \<Longrightarrow> km_file s = Some old \<Longrightarrow>
    km_step J s (t, WriteUnlock) (km_goto t Outside (s\<lparr>km_file := Some (d @ drop (length d) old)\<rparr>))"

inductive_cases km_stepE: "km_step J s l s'"

text \<open>The steps as a function, and runs of several.\<close>

definition km_next :: "json \<Rightarrow> km_state \<Rightarrow> nat \<times> km_label \<Rightarrow> km_state option" where
  "km_next J s l =
     (case l of (t, lab) \<Rightarrow>
        if t < length (km_threads s) then
          (case (km_threads s ! t, lab) of
             (Outside, Change c) \<Rightarrow>
               if list_all (\<lambda>ph. \<not> holds_rlock ph) (km_threads s)
               then Some (km_goto t Changed (s\<lparr>km_map := km_apply c (km_map s)\<rparr>)) else None
           | (Changed, RLock) \<Rightarrow> Some (km_goto t ReadLocked s)
           | (ReadLocked, Marshal) \<Rightarrow> Some (km_goto t (Marshalled (MarshalIndent J (km_map s))) s)
           | (Marshalled d, OpenTrunc) \<Rightarrow> Some (km_goto t (Truncated d) (s\<lparr>km_file := Some []\<rparr>))
           | (Truncated d, WriteUnlock) \<Rightarrow>
               (case km_file s of
                  None \<Rightarrow> None
                | Some old \<Rightarrow> Some (km_goto t Outside (s\<lparr>km_file := Some (d @ drop (length d) old)\<rparr>)))
           | _ \<Rightarrow> None)
        else None)"

fun km_run :: "json \<Rightarrow> km_state \<Rightarrow> (nat \<times> km_label) list \<Rightarrow> km_state option" where
  "km_run J s [] = Some s"
| "km_run J s (l # ls) = (case km_next J s l of None \<Rightarrow> None | Some s' \<Rightarrow> km_run J s' ls)"

lemma km_next_iff: "km_next J s l = Some s' \<longleftrightarrow> km_step J s l s'"
proof
  assume "km_next J s l = Some s'"
  then show "km_step J s l s'"
    by (cases l) (auto simp: km_next_def km_at_def intro: km_step.intros
        split: if_splits km_phase.splits km_label.splits option.splits)
next
  assume "km_step J s l s'"
  then show "km_next J s l = Some s'"
    by cases (simp_all add: km_next_def km_at_def)
qed

section \<open>The file is in step with the map\<close>

text \<open>What \<open>loadKeyMap\<close> reads from the file, for a store that is opened anew.\<close>

definition km_loads :: "json \<Rightarrow> bytes option \<Rightarrow> keymap \<Rightarrow> bool" where
  "km_loads J file m \<longleftrightarrow>
     (case file of
        None \<Rightarrow> map_of m = Map.empty
      | Some b \<Rightarrow> map_of (fst (Unmarshal J b [])) = map_of m \<and> snd (Unmarshal J b []) = None)"

definition quiet :: "km_state \<Rightarrow> bool" where
  "quiet s \<longleftrightarrow> list_all (\<lambda>ph. ph = Outside) (km_threads s)"

definition km_init :: "json \<Rightarrow> km_state \<Rightarrow> bool" where
  "km_init J s \<longleftrightarrow> quiet s \<and> distinct (map fst (km_map s)) \<and> km_loads J (km_file s) (km_map s)"

text \<open>
  The invariant: a document that is made is up to date, since the read lock is held; and a file that is
  not is about to be written.
\<close>

fun phase_ok :: "bytes \<Rightarrow> bytes option \<Rightarrow> km_phase \<Rightarrow> bool" where
  "phase_ok doc file (Marshalled d) \<longleftrightarrow> d = doc"
| "phase_ok doc file (Truncated d) \<longleftrightarrow> d = doc \<and> (file = Some [] \<or> file = Some doc)"
| "phase_ok doc file _ \<longleftrightarrow> True"

definition km_inv :: "json \<Rightarrow> km_state \<Rightarrow> bool" where
  "km_inv J s \<longleftrightarrow> distinct (map fst (km_map s)) \<and>
     list_all (phase_ok (MarshalIndent J (km_map s)) (km_file s)) (km_threads s) \<and>
     (quiet s \<longrightarrow> km_file s = Some (MarshalIndent J (km_map s)) \<or> km_loads J (km_file s) (km_map s))"

lemma km_apply_distinct: "distinct (map fst m) \<Longrightarrow> distinct (map fst (km_apply c m))"
  by (cases c) (simp_all add: distinct_update)

lemma km_goto_simps [simp]:
  "km_map (km_goto t ph s) = km_map s" "km_file (km_goto t ph s) = km_file s"
  "km_threads (km_goto t ph s) = (km_threads s)[t := ph]"
  by (simp_all add: km_goto_def)

lemma list_all_goto:
  assumes "list_all P xs" and "\<And>x. x \<in> set xs \<Longrightarrow> P x \<Longrightarrow> Q x" and "Q y"
  shows "list_all Q (xs[t := y])"
  using assms set_update_subset_insert [of xs t y] by (auto simp: list_all_iff)

lemma not_quiet: "t < length (km_threads s) \<Longrightarrow> ph \<noteq> Outside \<Longrightarrow> \<not> quiet (km_goto t ph s)"
  by (auto simp: quiet_def list_all_length intro!: exI [of _ t])

lemma km_inv_step:
  assumes "km_inv J s" and "km_step J s l s'"
  shows "km_inv J s'"
proof -
  let ?doc = "\<lambda>s. MarshalIndent J (km_map s)"
  have inv: "distinct (map fst (km_map s))" "list_all (phase_ok (?doc s) (km_file s)) (km_threads s)"
    using assms(1) by (simp_all add: km_inv_def)
  from assms(2) show ?thesis
  proof (cases rule: km_step.cases)
    case (change t c)
    have "list_all (phase_ok (?doc s') (km_file s')) (km_threads s')"
      unfolding change(2) by (simp, rule list_all_goto [OF change(4)]) (auto elim: holds_rlock.elims)
    with change inv(1) show ?thesis
      by (simp add: km_inv_def km_apply_distinct not_quiet km_at_def)
  next
    case (rlock t)
    with inv show ?thesis
      by (auto simp: km_inv_def not_quiet km_at_def intro: list_all_goto)
  next
    case (marshal t)
    with inv show ?thesis
      by (auto simp: km_inv_def not_quiet km_at_def intro: list_all_goto)
  next
    case (open_trunc t d)
    have "phase_ok (?doc s) (km_file s) (Marshalled d)"
      using inv(2) open_trunc(3) by (auto simp: km_at_def list_all_length)
    moreover have "phase_ok doc f ph \<Longrightarrow> phase_ok doc (Some []) ph" for doc f ph
      by (cases ph) auto
    ultimately show ?thesis
      using open_trunc inv by (auto simp: km_inv_def not_quiet km_at_def intro: list_all_goto [OF inv(2)])
  next
    case (write_unlock t d old)
    have "phase_ok (?doc s) (Some old) (Truncated d)"
      using inv(2) write_unlock(3,4) by (auto simp: km_at_def list_all_length)
    then have written: "km_file s' = Some (?doc s')"
      using write_unlock by auto
    moreover have "phase_ok doc f ph \<Longrightarrow> phase_ok doc (Some doc) ph" for doc f ph
      by (cases ph) auto
    ultimately show ?thesis
      using write_unlock inv by (auto simp: km_inv_def intro: list_all_goto [OF inv(2)])
  qed
qed

interpretation writers: machine "km_init J" "km_step J" "km_inv J" for J
proof unfold_locales
  show "km_inv J s" if "km_init J s" for s
    using that by (auto simp: km_init_def km_inv_def quiet_def list_all_iff)
qed (rule km_inv_step)

lemma km_run_reach: "km_run J s ls = Some s' \<Longrightarrow> writers.reach J s \<Longrightarrow> writers.reach J s'"
  by (induction J s ls rule: km_run.induct)
    (auto simp: km_next_iff split: option.splits intro: writers.reach_step)

lemma quiet_loads:
  assumes "json_ok J" and "writers.reach J s" and "quiet s"
  shows "km_loads J (km_file s) (km_map s)"
proof -
  note inv = writers.reach_inv [OF assms(2), unfolded km_inv_def]
  have "km_loads J (Some (MarshalIndent J (km_map s))) (km_map s)"
    using assms(1) inv by (force simp: json_ok_def km_loads_def)
  with inv assms(3) show ?thesis by metis
qed

text \<open>
  A thread that has begun can go on without a change of the map, until all are outside: no writer is locked
  out for good.  \<open>km_left\<close> counts the steps that are left.
\<close>

fun phase_left :: "km_phase \<Rightarrow> nat" where
  "phase_left Outside = 0"
| "phase_left Changed = 4"
| "phase_left ReadLocked = 3"
| "phase_left (Marshalled d) = 2"
| "phase_left (Truncated d) = 1"

definition km_left :: "km_state \<Rightarrow> nat" where
  "km_left s = (\<Sum>ph\<leftarrow>km_threads s. phase_left ph)"

lemma km_left_goto:
  assumes "km_at s t ph" and "phase_left ph = Suc (phase_left ph')" and "km_threads s' = (km_threads s)[t := ph']"
  shows "km_left s = Suc (km_left s')"
proof -
  have "t < length (km_threads s)" "km_threads s ! t = ph" using assms(1) by (simp_all add: km_at_def)
  moreover from this have "phase_left ph \<le> sum_list (map phase_left (km_threads s))"
    by (metis elem_le_sum_list length_map nth_map)
  ultimately show ?thesis
    using assms(2,3) by (simp add: km_left_def map_update sum_list_update)
qed

lemma writer_goes_on:
  assumes "km_inv J s" and "\<not> quiet s"
  shows "\<exists>l s'. km_step J s l s' \<and> km_map s' = km_map s \<and> km_left s = Suc (km_left s')"
proof -
  obtain t where t: "t < length (km_threads s)" "km_threads s ! t \<noteq> Outside"
    using assms(2) by (auto simp: quiet_def list_all_length)
  then have at: "km_at s t (km_threads s ! t)" by (simp add: km_at_def)
  have ok: "phase_ok (MarshalIndent J (km_map s)) (km_file s) (km_threads s ! t)"
    using assms(1) t(1) by (simp add: km_inv_def list_all_length)
  have go: ?thesis
    if "km_step J s (t, lab) s'" "km_map s' = km_map s" "km_threads s' = (km_threads s)[t := ph']"
      "phase_left (km_threads s ! t) = Suc (phase_left ph')" for lab s' ph'
    using that km_left_goto [OF at] by blast
  show ?thesis
  proof (cases "km_threads s ! t")
    case Outside
    with t(2) show ?thesis by simp
  next
    case Changed
    show ?thesis by (rule go [OF km_step.rlock [OF at [unfolded Changed]]]) (auto simp: Changed)
  next
    case ReadLocked
    show ?thesis by (rule go [OF km_step.marshal [OF at [unfolded ReadLocked]]]) (auto simp: ReadLocked)
  next
    case (Marshalled d)
    show ?thesis by (rule go [OF km_step.open_trunc [OF at [unfolded Marshalled]]]) (auto simp: Marshalled)
  next
    case (Truncated d)
    then obtain old where old: "km_file s = Some old" using ok by auto
    show ?thesis by (rule go [OF km_step.write_unlock [OF at [unfolded Truncated] old]]) (auto simp: Truncated)
  qed
qed

lemma writers_finish:
  assumes "km_inv J s"
  shows "\<exists>ls s'. km_run J s ls = Some s' \<and> quiet s' \<and> km_map s' = km_map s"
  using assms
proof (induction "km_left s" arbitrary: s rule: less_induct)
  case less
  show ?case
  proof (cases "quiet s")
    case True
    then show ?thesis by (intro exI [of _ "[]"]) simp
  next
    case False
    with less.prems obtain l s1
      where l: "km_step J s l s1" "km_map s1 = km_map s" "km_left s = Suc (km_left s1)"
      using writer_goes_on by blast
    then obtain ls s' where "km_run J s1 ls = Some s'" "quiet s'" "km_map s' = km_map s1"
      using less.hyps [of s1] km_inv_step [OF less.prems l(1)] by auto
    with l show ?thesis by (intro exI [of _ "l # ls"] exI [of _ s']) (simp add: iffD2 [OF km_next_iff])
  qed
qed

section \<open>One caller alone\<close>

text \<open>
  A caller that nobody interrupts does what the atomic operations of the store do: \<open>km_of\<close> reads the map and
  the file of a store, and a thread's own steps in a row are \<open>rememberKey\<close> or \<open>ClearKeyMap\<close>.
\<close>

definition km_of :: "nat \<Rightarrow> store \<Rightarrow> fs \<Rightarrow> km_state" where
  "km_of n s fs = \<lparr>km_map = keyMap s,
     km_file = (case fs_get fs (meta_path s) of Some (File b) \<Rightarrow> Some b | _ \<Rightarrow> None),
     km_threads = replicate n Outside\<rparr>"

definition solo :: "nat \<Rightarrow> km_change \<Rightarrow> (nat \<times> km_label) list" where
  "solo t c = map (Pair t) [Change c, RLock, Marshal, OpenTrunc, WriteUnlock]"

lemma solo_run:
  assumes "t < n"
  shows "km_run J \<lparr>km_map = m, km_file = b, km_threads = replicate n Outside\<rparr> (solo t c) =
    Some \<lparr>km_map = km_apply c m, km_file = Some (MarshalIndent J (km_apply c m)),
          km_threads = replicate n Outside\<rparr>"
proof -
  have "(replicate n Outside)[t := Outside] = replicate n Outside"
    using assms by (metis list_update_id nth_replicate)
  with assms show ?thesis
    by (simp add: solo_def km_next_def km_goto_def list_all_iff)
qed

lemma rememberKey_solo:
  assumes "store_inv s fs" and "t < n"
  shows "km_run J (km_of n s fs) (solo t (SetKey (HashKey key) key)) =
    Some (case rememberKey J s fs key of (s', fs') \<Rightarrow> km_of n s' fs')"
proof -
  obtain fs' where "rememberKey J s fs key = (learn s key, fs')"
    "fs_get fs' (meta_path s) = Some (File (MarshalIndent J (keyMap (learn s key))))"
    using rememberKey_put [OF assms(1)] by blast
  then show ?thesis
    by (simp add: km_of_def solo_run [OF assms(2)] learn_def meta_path_def)
qed

lemma ClearKeyMap_solo:
  assumes "store_inv s fs" and "t < n"
  shows "km_run J (km_of n s fs) (solo t ClearAll) =
    Some (case ClearKeyMap J s fs of (s', fs') \<Rightarrow> km_of n s' fs')"
proof -
  let ?s = "s\<lparr>keyMap := []\<rparr>"
  have "store_inv ?s fs" using assms(1) by (simp add: store_inv_def meta_path_def)
  then obtain fs' where "saveKeyMap J ?s fs = (fs', None)"
    "put_file fs (path_of (Root s)) ''metadata.json'' (MarshalIndent J []) fs'"
    using saveKeyMap_put [of ?s fs J] by auto
  then show ?thesis
    by (simp add: ClearKeyMap_def km_of_def solo_run [OF assms(2)] meta_path_def put_file_get)
qed

end
