(* ===== verification/Instances.thy ===== *)
theory Instances
  imports Node KeyMapLock
begin

text \<open>
  Concrete serialisers, to show that what the development relies on in \<open>encoding/gob\<close> and
  \<open>encoding/json\<close> can hold: a unary self-delimiting encoding of numbers, strings and lists, and the
  instances of the two parameters built from it.
\<close>

section \<open>Self-delimiting encodings\<close>

definition put_nat :: "nat \<Rightarrow> bytes" where
  "put_nat n = replicate n 1 @ [0]"

fun get_nat :: "bytes \<Rightarrow> nat \<times> bytes" where
  "get_nat [] = (0, [])"
| "get_nat (b # bs) = (if b = 0 then (0, bs) else case get_nat bs of (n, r) \<Rightarrow> (Suc n, r))"

definition put_str :: "string \<Rightarrow> bytes" where
  "put_str s = put_nat (length s) @ str_bytes s"

definition get_str :: "bytes \<Rightarrow> string \<times> bytes" where
  "get_str bs = (case get_nat bs of (n, r) \<Rightarrow> (bytes_str (take n r), drop n r))"

definition put_int :: "int \<Rightarrow> bytes" where
  "put_int i = (if i < 0 then 1 else 0) # put_nat (nat \<bar>i\<bar>)"

definition get_int :: "bytes \<Rightarrow> int \<times> bytes" where
  "get_int bs = (case bs of [] \<Rightarrow> (0, [])
     | b # r \<Rightarrow> (case get_nat r of (n, r') \<Rightarrow> (if b = 0 then int n else - int n, r')))"

fun put_list :: "('a \<Rightarrow> bytes) \<Rightarrow> 'a list \<Rightarrow> bytes" where
  "put_list f [] = []"
| "put_list f (x # xs) = f x @ put_list f xs"

fun get_list :: "(bytes \<Rightarrow> 'a \<times> bytes) \<Rightarrow> nat \<Rightarrow> bytes \<Rightarrow> 'a list \<times> bytes" where
  "get_list g 0 bs = ([], bs)"
| "get_list g (Suc n) bs = (case g bs of (x, r) \<Rightarrow> case get_list g n r of (xs, r') \<Rightarrow> (x # xs, r'))"

lemma get_put_nat [simp]: "get_nat (put_nat n @ r) = (n, r)"
  by (induction n) (simp_all add: put_nat_def)

lemma get_put_str [simp]: "get_str (put_str s @ r) = (s, r)"
  by (simp add: get_str_def put_str_def)

lemma get_put_int [simp]: "get_int (put_int i @ r) = (i, r)"
  by (simp add: get_int_def put_int_def)

lemma get_put_list:
  "(\<And>x r. g (f x @ r) = (x, r)) \<Longrightarrow> get_list g (length xs) (put_list f xs @ r) = (xs, r)"
  by (induction xs) simp_all

section \<open>Instances\<close>

definition put_peer :: "PeerInfo \<Rightarrow> bytes" where
  "put_peer p = put_str (pi_Address p) @ put_int (pi_LastSeen p) @ put_str (pi_Source p)"

definition get_peer :: "bytes \<Rightarrow> PeerInfo \<times> bytes" where
  "get_peer bs =
     (case get_str bs of (a, r1) \<Rightarrow> case get_int r1 of (t, r2) \<Rightarrow> case get_str r2 of (s, r3) \<Rightarrow>
      (\<lparr>pi_Address = a, pi_LastSeen = t, pi_Source = s\<rparr>, r3))"

lemma get_put_peer [simp]: "get_peer (put_peer p @ r) = (p, r)"
  by (simp add: get_peer_def put_peer_def)

definition put_hdr :: "StreamHeader \<Rightarrow> bytes" where
  "put_hdr h = put_str (sh_ID h) @ put_str (sh_Key h) @ put_int (sh_Size h)"

definition get_hdr :: "bytes \<Rightarrow> StreamHeader" where
  "get_hdr bs =
     (case get_str bs of (a, r1) \<Rightarrow> case get_str r1 of (k, r2) \<Rightarrow> case get_int r2 of (n, r3) \<Rightarrow>
      \<lparr>sh_ID = a, sh_Key = k, sh_Size = n\<rparr>)"

fun put_msg :: "payload \<Rightarrow> bytes result" where
  "put_msg (MessageGetFile i k) = Inr (1 # put_str i @ put_str k)"
| "put_msg (MessagePeerExchange ps) = Inr (2 # put_nat (length ps) @ put_list put_peer ps)"
| "put_msg (MessageStoreFile i k n) = Inl (Errorf ''gob: type not registered for interface: %s'' [])"
| "put_msg NilPayload = Inl (Errorf ''gob: cannot encode nil pointer'' [])"

definition get_msg :: "bytes \<Rightarrow> payload result" where
  "get_msg bs =
     (case bs of
        [] \<Rightarrow> Inl IoEOF
      | b # r \<Rightarrow>
          if b = 1 then (case get_str r of (i, r1) \<Rightarrow> case get_str r1 of (k, _) \<Rightarrow> Inr (MessageGetFile i k))
          else (case get_nat r of (n, r1) \<Rightarrow> case get_list get_peer n r1 of (ps, _) \<Rightarrow> Inr (MessagePeerExchange ps)))"

definition unary_gob :: gob where
  "unary_gob = \<lparr>enc_hdr = (\<lambda>h. Inr (put_hdr h)), dec_hdr = (\<lambda>b. Inr (get_hdr b)),
     enc_msg = put_msg, dec_msg = get_msg\<rparr>"

lemma get_put_hdr: "get_hdr (put_hdr h) = h"
proof -
  have "get_int (put_int i) = (i, [])" for i
    using get_put_int [of i "[]"] by simp
  then show ?thesis
    by (simp add: get_hdr_def put_hdr_def)
qed

interpretation unary_hdr: codec put_hdr "\<lambda>b. Some (get_hdr b)" "\<lambda>_. True"
  by unfold_locales (simp add: get_put_hdr)

lemma get_put_msg:
  assumes "put_msg p = Inr b"
  shows "get_msg b = Inr p"
proof -
  have str: "get_str (put_str s) = (s, [])" for s
    using get_put_str [of s "[]"] by simp
  have lst: "get_list get_peer (length ps) (put_list put_peer ps) = (ps, [])" for ps
    using get_put_list [of get_peer put_peer ps "[]"] by simp
  show ?thesis
    using assms by (cases p) (auto simp: get_msg_def str lst)
qed

lemma gob_ok_unary: "gob_ok unary_gob"
proof -
  have "if gob_registered p then \<exists>b. put_msg p = Inr b \<and> get_msg b = Inr p else \<exists>e. put_msg p = Inl e" for p
    using get_put_msg [of p] by (cases p) auto
  then show ?thesis
    by (simp add: gob_ok_def unary_gob_def get_put_hdr)
qed

definition put_pair :: "string \<times> string \<Rightarrow> bytes" where
  "put_pair e = put_str (fst e) @ put_str (snd e)"

definition get_pair :: "bytes \<Rightarrow> (string \<times> string) \<times> bytes" where
  "get_pair bs = (case get_str bs of (a, r1) \<Rightarrow> case get_str r1 of (b, r2) \<Rightarrow> ((a, b), r2))"

lemma get_put_pair [simp]: "get_pair (put_pair e @ r) = (e, r)"
  by (simp add: get_pair_def put_pair_def)

text \<open>Decoding into a map adds the entries of the document.\<close>

definition unary_json :: json where
  "unary_json = \<lparr>MarshalIndent = (\<lambda>m. put_nat (length m) @ put_list put_pair m),
     Unmarshal = (\<lambda>b cur. case get_nat b of (n, r) \<Rightarrow> case get_list get_pair n r of (es, _) \<Rightarrow>
       (fold (\<lambda>(k, v). AList.update k v) es cur, None))\<rparr>"

lemma map_of_fold_update:
  "distinct (map fst es) \<Longrightarrow> set (map fst es) \<inter> set (map fst cur) = {} \<Longrightarrow>
   map_of (fold (\<lambda>(k, v). AList.update k v) es cur) = map_of cur ++ map_of es"
proof (induction es arbitrary: cur)
  case (Cons e es)
  obtain k v where e: "e = (k, v)" by fastforce
  have "map_of (fold (\<lambda>(k, v). AList.update k v) es (AList.update k v cur)) =
      map_of (AList.update k v cur) ++ map_of es"
    using Cons.prems e by (intro Cons.IH) (auto simp: dom_update)
  moreover have "map_of es k = None"
    using Cons.prems e by (auto simp: map_of_eq_None_iff)
  ultimately show ?case
    by (auto simp: e update_conv' fun_eq_iff map_add_def split: option.splits)
qed simp

lemma json_ok_unary: "json_ok unary_json"
proof -
  have lst: "get_list get_pair (length m) (put_list put_pair m) = (m, [])" for m
    using get_put_list [of get_pair put_pair m "[]"] by simp
  show ?thesis
    by (simp add: json_ok_def unary_json_def lst map_of_fold_update)
qed

section \<open>A concrete node\<close>

definition demo_store :: store where
  "demo_store = \<lparr>Root = ''vault'', PathTransformFunc = CASPathTransformFunc, keyMap = []\<rparr>"

definition demo_id :: string where
  "demo_id = ''c0ffee00''"

definition demo_key :: bytes where
  "demo_key = replicate 32 7"

lemma demo_id_valid [simp]: "ValidateNodeID demo_id = Inr ()"
  by code_simp

lemma demo_key_valid [simp]: "valid_key demo_key"
  by (simp add: valid_key_def demo_key_def)

lemma good_root_demo: "good_root ''vault''"
  by code_simp

lemma demo_store_simps [simp]:
  "Root demo_store = ''vault''" "PathTransformFunc demo_store = CASPathTransformFunc" "keyMap demo_store = []"
  by (simp_all add: demo_store_def)

lemma demo_store_inv [simp]: "store_inv demo_store []"
  using good_root_demo by (intro store_inv_empty) simp_all

text \<open>The same store after one file was written, and the disk it leaves.\<close>

definition demo_store1 :: store where
  "demo_store1 = learn demo_store ''k''"

definition demo_fs1 :: fs where
  "demo_fs1 = fst (snd (store_Write unary_json demo_store [] demo_id ''k'' (bytes_reader [1, 2])))"

lemma demo_written:
  shows demo_fs1_inv [simp]: "store_inv demo_store1 demo_fs1"
    and vault_demo1: "vault demo_store1 demo_fs1 = [(demo_id, HashKey ''k'') \<mapsto> [1, 2]]"
    and meta_demo1: "fs_get demo_fs1 (meta_path demo_store1) =
      Some (File (MarshalIndent unary_json (keyMap demo_store1)))"
proof -
  obtain fs' where *: "store_Write unary_json demo_store [] demo_id ''k'' (bytes_reader [1, 2]) =
      (learn demo_store ''k'', fs', case drain (bytes_reader [1, 2]) of (d, None) \<Rightarrow> Inr (length d) | (d, Some e) \<Rightarrow> Inl e)"
    "store_inv demo_store fs'"
    "vault demo_store fs' = (vault demo_store [])((demo_id, HashKey ''k'') \<mapsto> fst (drain (bytes_reader [1, 2])))"
    "fs_get fs' (meta_path demo_store) = Some (File (MarshalIndent unary_json (keyMap (learn demo_store ''k''))))"
    using Write_vault [OF demo_store_inv demo_id_valid] .
  have fs: "demo_fs1 = fs'"
    unfolding demo_fs1_def *(1) by simp
  have root: "meta_path (learn demo_store ''k'') = meta_path demo_store"
    by (simp add: meta_path_def)
  show "store_inv demo_store1 demo_fs1"
    unfolding demo_store1_def fs learn_simps by (rule *(2))
  show "vault demo_store1 demo_fs1 = [(demo_id, HashKey ''k'') \<mapsto> [1, 2]]"
    unfolding demo_store1_def fs learn_simps *(3) by (simp add: vault_empty good_root_demo)
  show "fs_get demo_fs1 (meta_path demo_store1) = Some (File (MarshalIndent unary_json (keyMap demo_store1)))"
    unfolding demo_store1_def fs root by (rule *(4))
qed

definition demo_server :: FileServer where
  "demo_server =
     \<lparr>srv_ID = demo_id, EncKey = demo_key,
      Transport = \<lparr>ListenAddr = '':3000'', DialTimeout = 0, MaxRetries = 0, RetryDelay = 0, listener = NoListener\<rparr>,
      BootstrapNodes = [], FetchTimeout = 5 * sec, Peers = [], srv_store = demo_store,
      QuotaMgr = NewQuotaManager ''vault'',
      GC = \<lparr>gc_store = demo_store, gc_nodeID = demo_id, cleanupInterval = 0, initialDelay = 0,
            integrityEnabled = True, gc_stopped = False\<rparr>,
      srv_Metrics = NewMetrics 0 0, Pex = NewPeerExchangeService 0, quit_closed = False,
      waiters = [], next_ch = 0, ready = [], disk = []\<rparr>"

lemma demo_server_simps [simp]:
  "srv_ID demo_server = demo_id" "EncKey demo_server = demo_key" "srv_store demo_server = demo_store"
  "disk demo_server = []" "Peers demo_server = []" "waiters demo_server = []" "next_ch demo_server = 0"
  "ready demo_server = []" "Pex demo_server = NewPeerExchangeService 0"
  by (simp_all add: demo_server_def)

lemma demo_node_inv [simp]: "node_inv demo_server"
  by (simp add: node_inv_def srv_inv_def wait_inv_def)

lemma length_put [simp]:
  "length (put_nat n) = Suc n" "length (put_str s) = Suc (2 * length s)" "length (put_int i) = Suc (Suc (nat \<bar>i\<bar>))"
  "length (put_hdr h) = 4 + 2 * length (sh_ID h) + 2 * length (sh_Key h) + nat \<bar>sh_Size h\<bar>"
  by (simp_all add: put_nat_def put_str_def put_int_def put_hdr_def)

lemma length_demo_id [simp]: "length demo_id = 8"
  by (simp add: demo_id_def)

definition demo_gc :: GarbageCollector where
  "demo_gc = \<lparr>gc_store = demo_store1, gc_nodeID = demo_id, cleanupInterval = 3600 * sec,
     initialDelay = 300 * sec, integrityEnabled = True, gc_stopped = False\<rparr>"

lemma demo_gc_simps [simp]:
  "gc_store demo_gc = demo_store1" "gc_nodeID demo_gc = demo_id" "integrityEnabled demo_gc"
  by (simp_all add: demo_gc_def)

lemma pex_demo_reach:
  "pex_machine.reach \<lparr>nodes = (\<lambda>_. demo_server)(0 := demo_server\<lparr>Pex := pex_Start (Pex demo_server)\<rparr>), inflight = {}\<rparr>"
proof -
  let ?n = "\<lparr>nodes = \<lambda>_. demo_server, inflight = {}\<rparr>"
  have "pex_machine.reach ?n"
    by (intro pex_machine.reach_init) (auto simp: pex_init_def)
  then show ?thesis
    using pex_machine.reach_step [OF _ pex_step.pex_start [of ?n 0]] by simp
qed

definition demo_conn :: conn where
  "demo_conn = \<lparr>c_peer = NewTCPPeer ''a'' [] new_buffer False, c_phase = Reading, c_queue = []\<rparr>"

lemma demo_conn_simps [simp]:
  "c_phase demo_conn = Reading" "c_queue demo_conn = []" "peer_in (c_peer demo_conn) = []"
  "peer_wg (c_peer demo_conn) = 0" "RemoteAddr (c_peer demo_conn) = ''a''"
  by (simp_all add: demo_conn_def NewTCPPeer_def)

lemma demo_conn_reach: "conns.reach demo_conn"
  by (intro conns.reach_init) (simp add: conn_init_def)

definition demo_opts :: FileServerOpts where
  "demo_opts = \<lparr>o_ID = [], o_EncKey = demo_key, o_StorageRoot = ''vault'',
     o_PathTransformFunc = Some CASPathTransformFunc,
     o_Transport = \<lparr>ListenAddr = '':3000'', DialTimeout = 0, MaxRetries = 0, RetryDelay = 0, listener = NoListener\<rparr>,
     o_BootstrapNodes = [], o_FetchTimeout = 0, o_PexInterval = 0, o_GCInterval = 0, o_GCDelay = 0\<rparr>"

lemma demo_opts_simps [simp]:
  "o_ID demo_opts = []" "o_StorageRoot demo_opts = ''vault''"
  "o_PathTransformFunc demo_opts = Some CASPathTransformFunc"
  by (simp_all add: demo_opts_def)

text \<open>A node that was started from these options on an empty disk.\<close>

definition demo_booted :: FileServer where
  "demo_booted = the (NewFileServer unary_json demo_opts (Some (\<lambda>i. of_nat i)) 0 [])"

lemma demo_booted: "NewFileServer unary_json demo_opts (Some (\<lambda>i. of_nat i)) 0 [] = Some demo_booted"
  using NewFileServer_ok [of demo_store "[]" demo_opts unary_json "\<lambda>i. of_nat i" 0]
  by (auto simp: demo_booted_def)

lemma demo_booted_key [simp]: "EncKey demo_booted = demo_key"
  using NewFileServer_key [OF demo_booted] by (simp add: demo_opts_def)

definition demo_node :: node where
  "demo_node = fresh_node demo_booted"

lemma demo_node_key [simp]: "EncKey (n_srv demo_node) = demo_key"
  by (simp add: demo_node_def fresh_node_def)

lemma demo_node_reach: "nodes.reach unary_json demo_opts G demo_node"
proof (rule nodes.reach_init)
  have "store_inv demo_store [] \<and> Root demo_store = o_StorageRoot demo_opts \<and>
      NewFileServer unary_json demo_opts (Some (\<lambda>i. of_nat i)) 0 [] = Some demo_booted \<and> demo_node = fresh_node demo_booted"
    by (simp add: demo_booted demo_node_def)
  then show "node_init unary_json demo_opts demo_node"
    unfolding node_init_def demo_opts_simps(3) by blast
qed

text \<open>Two writers of the key map, both between truncating and writing the file.\<close>

definition demo_writers :: km_state where
  "demo_writers = \<lparr>km_map = [], km_file = None, km_threads = [Outside, Outside]\<rparr>"

definition demo_trace :: "(nat \<times> km_label) list" where
  "demo_trace = [(0, Change (SetKey ''a'' ''x'')), (1, Change (SetKey ''b'' ''y'')), (0, RLock), (1, RLock),
     (1, Marshal), (0, Marshal), (0, OpenTrunc), (1, OpenTrunc)]"

lemma demo_writers_init: "km_init J demo_writers"
  by (simp add: km_init_def demo_writers_def quiet_def km_loads_def)

end
