(* ===== verification/CliFacts.thy ===== *)
theory CliFacts
  imports Cli Instances
begin

text \<open>
  Facts on the command line: which commands stop the server, what a session leaves running, and what
  a started node looks like.
\<close>

text \<open>What a command leaves alone: the switches that a stop throws.\<close>

definition switches :: "FileServer \<Rightarrow> bool \<times> bool" where
  "switches s = (quit_closed s, pex_stopped (Pex s))"

lemma switches_simps [simp]:
  "switches (s\<lparr>Peers := ps\<rparr>) = switches s" "switches (s\<lparr>disk := fs\<rparr>) = switches s"
  "switches (s\<lparr>srv_store := st\<rparr>) = switches s" "switches (s\<lparr>waiters := w\<rparr>) = switches s"
  "switches (s\<lparr>next_ch := c\<rparr>) = switches s" "switches (s\<lparr>Transport := t\<rparr>) = switches s"
  by (simp_all add: switches_def)

lemma Store_switches: "switches (fst (Store G J s rnd c key r)) = switches s"
  unfolding Store_def
  by (auto simp: Let_def broadcast_def split: prod.splits option.splits sum.splits if_splits)

lemma Get_switches: "switches (fst (Get G s cancel key)) = switches s"
  unfolding Get_def
  by (auto simp: Let_def broadcast_def registerFileWaiter_def split: prod.splits option.splits sum.splits if_splits)


lemma Delete_switches: "switches (fst (server_Delete s key)) = switches s"
  by (auto simp: server_Delete_def split: prod.splits)

lemma handle_peers_switches:
  "handle_peers now s ps = (s', dials) \<Longrightarrow> switches s' = switches s"
proof (induction now s ps arbitrary: dials rule: handle_peers.induct)
  case (2 now s peer ps)
  then show ?case
    by (auto simp: switches_def AddKnownPeer_def split: if_splits prod.splits option.splits)
qed simp

lemma handleMessage_switches:
  "handleMessage G now s a msg = (s', dials, e) \<Longrightarrow> switches s' = switches s"
  by (auto simp: handleMessage_def handleMessageGetFile_def HandlePeerExchange_def Let_def
           dest: handle_peers_switches
           split: payload.splits option.splits if_splits sum.splits prod.splits)

lemma receive_file_switches: "receive_file J s h p = (s', p', e) \<Longrightarrow> switches s' = switches s"
  by (auto simp: receive_file_def notifyFileWaiter_def switches_def Let_def
           split: prod.splits sum.splits option.splits)

lemma handleStream_switches: "handleStream G J s a = Return (s', e) \<Longrightarrow> switches s' = switches s"
  by (auto simp: handleStream_def receive_header_def Let_def dest!: receive_file_switches
           split: option.splits go.splits prod.splits sum.splits if_splits)

lemma loop_rpc_switches: "loop_rpc G J now s rpc = Return (s', dials) \<Longrightarrow> switches s' = switches s"
  by (auto simp: loop_rpc_def Let_def dest: handleStream_switches handleMessage_switches
           split: if_splits go.splits prod.splits sum.splits)

text \<open>The message loop of the server stops nothing.\<close>

lemma loop_switches: "loop G J s es = Return (s', dials, b) \<Longrightarrow> switches s' = switches s"
proof (induction G J s es arbitrary: dials rule: loop.induct)
  case (2 G J s now rpc es)
  then obtain s1 d1 where s1: "loop_rpc G J now s rpc = Return (s1, d1)"
    by (cases "loop_rpc G J now s rpc") auto
  with 2(2) obtain d2 where "loop G J s1 es = Return (s', d2, b)"
    by (auto split: go.splits prod.splits)
  with 2(1) [OF s1 refl] loop_rpc_switches [OF s1] show ?case by simp
qed (auto split: go.splits prod.splits)

text \<open>What the network may do before and during a command.\<close>

definition app_switches :: "app \<Rightarrow> (bool \<times> bool) \<times> bool option" where
  "app_switches a = (switches (server a), map_option ds_stopped (discovery a))"

definition env_ok :: "cli_env \<Rightarrow> bool" where
  "env_ok E \<longleftrightarrow> (\<forall>a. app_switches (ce_net E a) = app_switches a) \<and>
     (\<forall>s ch. switches (fst (ce_await E s ch)) = switches s)"

lemma fetch_server:
  "fst (fetch G E key s) =
     (case Get G s (ce_cancel E) key of
        (s', Served r) \<Rightarrow> s' | (s', Waiting_on ch) \<Rightarrow> fst (ce_await E s' ch))"
  by (simp add: fetch_def split: prod.split get_state.split)

lemma fetch_switches:
  assumes "env_ok E"
  shows "switches (fst (fetch G E key s)) = switches s"
  using assms Get_switches [of G s "ce_cancel E" key]
  by (auto simp: fetch_server env_ok_def split: prod.split get_state.split)

lemma cmd_server:
  "fst (cmd_store G J E f s) = fst (Store G J s (ce_rnd E) (ce_done E) f
     (bytes_reader (str_bytes (''Sample data for file: '' @ f @ '' (stored at '' @ ce_clock E @ '')''))))"
  "fst (cmd_get G E f s) = fst (fetch G E f s)"
  "fst (cmd_delete f ls s) = (if ls \<noteq> [] \<and> confirmed (hd ls) then fst (server_Delete s f) else s)"
  "fst (cmd_fetch G E f a s) = (if map_of (Peers s) a = None then s else fst (fetch G E f s))"
  by (simp_all add: cmd_store_def cmd_get_def cmd_delete_def cmd_fetch_def Let_def
        split: prod.split option.split sum.split list.split)

lemma cmd_send_switches: "switches (fst (cmd_send G f a s)) = switches s"
  by (simp add: cmd_send_def Let_def split: prod.split option.split sum.split)

lemmas cmd_switches = cmd_server Store_switches Delete_switches fetch_switches cmd_send_switches

text \<open>Which inputs leave the interactive mode by a command, rather than by the end of the input.\<close>

function leaves :: "string list \<Rightarrow> bool" where
  "leaves [] = False"
| "leaves (line # ls) =
     (let parts = split (CHR '' '') (TrimSpace line); command = hd parts
      in if TrimSpace line = [] then leaves ls
         else if command = ''quit'' \<or> command = ''exit'' then True
         else if command = ''clean'' then (ls \<noteq> [] \<and> confirmed (hd ls)) \<or> leaves (drop 1 ls)
         else if command = ''delete'' \<and> length parts \<ge> 2 then leaves (drop 1 ls)
         else leaves ls)"
  by pat_completeness auto

termination
  by (relation "measure length") auto

declare leaves.simps [simp del]

text \<open>One command, by the switches: what it reads, and whether it leaves the mode with the server stopped.\<close>

lemma cmd_delete_switches: "cmd_delete f ls s = (s', os) \<Longrightarrow> switches s' = switches s"
  using cmd_server(3) [of f ls s] Delete_switches [of s f] by (simp split: if_splits)

lemma command_results:
  "with_server a r = Some (Return (a1, k, os, g)) \<longleftrightarrow> a1 = a\<lparr>server := fst r\<rparr> \<and> k = 0 \<and> os = snd r \<and> g"
  "printing a p = Some (Return (a1, k, os, g)) \<longleftrightarrow> a1 = a \<and> k = 0 \<and> p = Some (Return os) \<and> g"
  "usage a ls = Some (Return (a1, k, os, g)) \<longleftrightarrow> a1 = a \<and> k = 0 \<and> os = map Say ls \<and> g"
  by (auto simp: with_server_def printing_def usage_def split: option.splits go.splits)

lemma cmd_clean_result:
  assumes "cmd_clean J ls s = Return (s', os, leave)" and "\<not> quit_closed s"
  shows "leave = (ls \<noteq> [] \<and> confirmed (hd ls))" and "\<not> leave \<Longrightarrow> s' = s" and "leave \<Longrightarrow> quit_closed s'"
  using assms
  by (auto simp: cmd_clean_def Stop_def ClearStorage_def ClearKeyMapping_def Let_def
           split: list.splits if_splits prod.splits option.splits go.splits)

lemma run_command_switches:
  assumes "run_command G J E parts ls a = Some (Return (a1, k, os, goes_on))" and "env_ok E"
    and "\<not> quit_closed (server a)"
  shows "discovery a1 = discovery a \<and>
    (hd parts = ''quit'' \<or> hd parts = ''exit'' \<longrightarrow> \<not> goes_on) \<and>
    (hd parts = ''clean'' \<longrightarrow> k = 1 \<and> goes_on = (\<not> (ls \<noteq> [] \<and> confirmed (hd ls)))) \<and>
    (hd parts \<notin> {''quit'', ''exit'', ''clean''} \<longrightarrow>
       goes_on \<and> k = (if hd parts = ''delete'' \<and> length parts \<ge> 2 then 1 else 0)) \<and>
    (goes_on \<longrightarrow> switches (server a1) = switches (server a)) \<and>
    (\<not> goes_on \<longrightarrow> quit_closed (server a1))"
  using assms
  by (auto simp: run_command_def Let_def command_results cmd_switches Stop_def
           split: if_splits go.splits prod.splits dest: cmd_clean_result cmd_delete_switches)


text \<open>One turn of the session: it ends with the server stopped, or goes on with every switch as it was.\<close>

lemma session_turn:
  assumes "read_loop G J E n (line # ls) a = Some (Return (a', os))" and "TrimSpace line \<noteq> []"
    and "env_ok (E n)" and "\<not> quit_closed (server a)"
  obtains "leaves (line # ls)" "quit_closed (server a')"
  | a1 k os1 os2 where
      "run_command G J (E n) (split (CHR '' '') (TrimSpace line)) ls (ce_net (E n) a) = Some (Return (a1, k, os1, True))"
      "read_loop G J E (n + 1) (drop k ls) a1 = Some (Return (a', os2))"
      "leaves (line # ls) = leaves (drop k ls)" "app_switches a1 = app_switches a"
proof -
  let ?a = "ce_net (E n) a"
  have net: "app_switches ?a = app_switches a" "\<not> quit_closed (server ?a)"
    using assms(3,4) by (simp_all add: env_ok_def app_switches_def switches_def)
  obtain a1 k os1 g where
    run: "run_command G J (E n) (split (CHR '' '') (TrimSpace line)) ls ?a = Some (Return (a1, k, os1, g))"
    using assms(1,2) by (auto simp: read_loop.simps Let_def split: option.splits go.splits)
  note one = run_command_switches [OF run assms(3) net(2)]
  show thesis
  proof (cases g)
    case True
    with assms(1,2) run obtain os2 where "read_loop G J E (n + 1) (drop k ls) a1 = Some (Return (a', os2))"
      by (auto simp: read_loop.simps(2) Let_def split: option.splits go.splits)
    moreover have "leaves (line # ls) = leaves (drop k ls)"
      using one True assms(2) by (auto simp: leaves.simps(2) Let_def)
    ultimately show thesis
      using that(2) run one True net(1) by (simp add: app_switches_def)
  next
    case False
    with assms(1,2) run have "a' = a1"
      by (simp add: read_loop.simps(2) Let_def)
    with one False assms(2) show thesis
      by (intro that(1)) (auto simp: leaves.simps(2) Let_def)
  qed
qed

lemma session_switches:
  assumes "read_loop G J E n ls a = Some (Return (a', os))" and "\<And>i. env_ok (E i)"
    and "\<not> quit_closed (server a)"
  shows "if leaves ls then quit_closed (server a') else app_switches a' = app_switches a"
  using assms
proof (induction G J E n ls a arbitrary: os rule: read_loop.induct)
  case (1 G J E n a)
  then show ?case
    by (simp add: read_loop.simps leaves.simps)
next
  case (2 G J E n line ls a)
  show ?case
  proof (cases "TrimSpace line = []")
    case True
    with 2(3) obtain os0 where "read_loop G J E n ls a = Some (Return (a', os0))"
      by (auto simp: read_loop.simps(2) Let_def split: option.splits go.splits)
    with 2(1) [OF refl refl True _ 2(4,5)] True show ?thesis
      by (simp add: leaves.simps(2))
  next
    case False
    from 2(3) False 2(4,5) show ?thesis
    proof (cases rule: session_turn)
      case 1
      then show ?thesis by simp
    next
      case (2 a1 k os1 os2)
      have "\<not> quit_closed (server a1)"
        using 2(4) "2.prems"(3) by (simp add: app_switches_def switches_def)
      then have "if leaves (drop k ls) then quit_closed (server a') else app_switches a' = app_switches a1"
        using "2.IH"(2) [OF refl refl False 2(1) refl refl refl refl, simplified, OF _ "2.prems"(2)] 2(2) by simp
      with 2(3,4) show ?thesis by simp
    qed
  qed
qed

lemma shut_down_result:
  "shut_down a =
     (if quit_closed (server a) \<or> (\<exists>d. discovery a = Some d \<and> ds_stopped d) \<or> pex_stopped (Pex (server a))
      then Panic ''close of closed channel''
      else Return \<lparr>server = (server a)\<lparr>quit_closed := True, Pex := (Pex (server a))\<lparr>pex_Enabled := False, pex_stopped := True\<rparr>\<rparr>,
                   discovery = map_option (\<lambda>d. d\<lparr>ds_stopped := True\<rparr>) (discovery a),
                   metrics_server = map_option ms_Stop (metrics_server a)\<rparr>)"
  by (auto simp: shut_down_def Stop_def ds_Stop_def pex_Stop_def split: option.split)


lemma EnableLocalDiscovery_fresh: "\<not> ds_stopped (fst (EnableLocalDiscovery M host ifaces addr))"
  by (auto simp: EnableLocalDiscovery_def ds_Start_def startAdvertising_def NewDiscoveryService_def SetPeerFoundCallback_def Let_def
           split: option.splits sum.splits if_splits prod.splits)

lemma network_key_length: "network_key k = Some key \<Longrightarrow> length key = 32"
  by (auto simp: network_key_def Let_def split: if_splits)

lemma makeServer_fields:
  assumes "makeServer J rnd now fs addr key fto pxi gci dly boot = Some s"
  shows "EncKey s = key" "switches s = (False, False)" "\<not> pex_Enabled (Pex s)"
    "QuotaMgr s = NewQuotaManager (storage_root addr)" "disk s = fs"
  using assms
  by (auto simp: makeServer_def NewFileServer_def Let_def switches_def NewPeerExchangeService_def
           split: option.splits sum.splits)

lemma makeServer_ok:
  assumes "store_inv s0 fs" and "Root s0 = storage_root addr"
  shows "\<exists>s. makeServer J (Some f) now fs addr key fto pxi gci dly boot = Some s \<and> node_inv s"
  unfolding makeServer_def by (rule exE [OF NewFileServer_ok [OF assms(1)]]) (use assms(2) in auto)

lemma save_quota_result: "save_quota QJ qm n fs = Up (qm', fs') \<Longrightarrow> GetMaxStorage qm' = n"
  by (auto simp: save_quota_def SetMaxStorage_def GetMaxStorage_def split: prod.splits option.splits)

lemma init_quota_result:
  assumes "init_quota QJ tty stdin n qm fs = Return (Up (qm', fs'))" and "n > 0"
  shows "GetMaxStorage qm' = n"
  using assms
  by (auto simp: init_quota_def Let_def dest: save_quota_result
           split: go.splits prod.splits option.splits phase_result.splits if_splits)

lemma start_up_parts:
  assumes "start_up J QJ B cfg fs = Return (Up a)"
  obtains key s q qm fs' where "network_key (cfg_EncKey cfg) = Some key"
    and "makeServer J (be_rnd B) (be_now B) fs (cfg_ListenAddr cfg) key (cfg_FetchTimeout cfg)
                 (cfg_PexInterval cfg) (cfg_GCInterval cfg) (cfg_GCDelay cfg) (cfg_Bootstrap cfg) = Some s"
    and "init_quota QJ (isTerminal (be_stat B)) (be_stdin B) q (QuotaMgr s) (disk s) = Return (Up (qm, fs'))"
    and "override_quota (cfg_QuotaSize cfg) = Up q"
    and "a = \<lparr>server = (let s1 = s\<lparr>QuotaMgr := qm, disk := fs'\<rparr>
                 in if cfg_DiscoverPex cfg then EnablePeerExchange s1 else s1),
               discovery = (if cfg_DiscoverLocal cfg
                               then Some (fst (EnableLocalDiscovery (be_mdns B) (be_host B) (be_ifaces B)
                                             (advertise cfg (be_local B) (be_public B))))
                               else None),
               metrics_server = (if cfg_MetricsAddr cfg \<noteq> []
                               then Some (fst (ms_Start (be_http B) (NewMetricsServer (cfg_MetricsAddr cfg)))) else None)\<rparr>"
  using assms by (auto simp: start_up_def Let_def split: option.splits phase_result.splits go.splits prod.splits)

lemma start_up_result:
  assumes "start_up J QJ B cfg fs = Return (Up a)"
  shows "network_key (cfg_EncKey cfg) = Some (EncKey (server a))"
    and "app_switches a = ((False, False), if cfg_DiscoverLocal cfg then Some False else None)"
    and "pex_Enabled (Pex (server a)) = cfg_DiscoverPex cfg"
    and "ParseStorageSize (cfg_QuotaSize cfg) = Inr n \<Longrightarrow> n > 0 \<Longrightarrow> GetMaxStorage (QuotaMgr (server a)) = n"
proof -
  from assms obtain key s q qm fs' where key: "network_key (cfg_EncKey cfg) = Some key"
    and s: "makeServer J (be_rnd B) (be_now B) fs (cfg_ListenAddr cfg) key (cfg_FetchTimeout cfg)
                 (cfg_PexInterval cfg) (cfg_GCInterval cfg) (cfg_GCDelay cfg) (cfg_Bootstrap cfg) = Some s"
    and q: "init_quota QJ (isTerminal (be_stat B)) (be_stdin B) q (QuotaMgr s) (disk s) = Return (Up (qm, fs'))"
    and oq: "override_quota (cfg_QuotaSize cfg) = Up q"
    and a: "a = \<lparr>server = (let s1 = s\<lparr>QuotaMgr := qm, disk := fs'\<rparr>
                 in if cfg_DiscoverPex cfg then EnablePeerExchange s1 else s1),
               discovery = (if cfg_DiscoverLocal cfg
                               then Some (fst (EnableLocalDiscovery (be_mdns B) (be_host B) (be_ifaces B)
                                             (advertise cfg (be_local B) (be_public B))))
                               else None),
               metrics_server = (if cfg_MetricsAddr cfg \<noteq> []
                               then Some (fst (ms_Start (be_http B) (NewMetricsServer (cfg_MetricsAddr cfg)))) else None)\<rparr>"
    by (rule start_up_parts)
  note f = makeServer_fields [OF s]
  show "network_key (cfg_EncKey cfg) = Some (EncKey (server a))"
    and "pex_Enabled (Pex (server a)) = cfg_DiscoverPex cfg"
    using key f by (simp_all add: a Let_def EnablePeerExchange_def pex_Start_def)
  show "app_switches a = ((False, False), if cfg_DiscoverLocal cfg then Some False else None)"
    using f EnableLocalDiscovery_fresh by (simp add: a Let_def EnablePeerExchange_def pex_Start_def app_switches_def switches_def)
  show "GetMaxStorage (QuotaMgr (server a)) = n" if "ParseStorageSize (cfg_QuotaSize cfg) = Inr n" "n > 0"
  proof -
    have "ParseStorageSize [] \<noteq> Inr n"
      by (simp add: ParseStorageSize_def TrimSpace_def ToUpper_def Let_def)
    then have "q = n"
      using oq that(1) by (auto simp: override_quota_def split: if_splits)
    with init_quota_result [OF q] that(2) show ?thesis
      by (simp add: a Let_def EnablePeerExchange_def)
  qed
qed

lemma interactiveMode_switches:
  assumes "interactiveMode G J E ls a = Some (Return (a', os))" and "\<And>i. env_ok (E i)"
    and "\<not> quit_closed (server a)"
  shows "if leaves ls then quit_closed (server a') else app_switches a' = app_switches a"
proof -
  obtain os' where "read_loop G J E 0 ls a = Some (Return (a', os'))"
    using assms(1) by (auto simp: interactiveMode_def split: option.splits go.splits)
  from session_switches [OF this assms(2,3)] show ?thesis .
qed

text \<open>The demo mode stops nothing.\<close>

lemma demo_stores_switches: "switches (demo_stores G J E is s) = switches s"
  by (induction G J E "is" s rule: demo_stores.induct) (auto simp: Store_switches)

lemma demo_reads_switches:
  "(\<And>i. env_ok (E i)) \<Longrightarrow> switches (fst (demo_reads G E is s)) = switches s"
proof (induction G E "is" s rule: demo_reads.induct)
  case (2 G E i "is" s)
  then show ?case
    using fetch_switches [of "E i" G "demo_file i" s] by (auto split: prod.splits)
qed simp

lemma demo_mode_switches:
  "(\<And>i. env_ok (E' i)) \<Longrightarrow> switches (fst (demo_mode G J E E' s)) = switches s"
  by (simp add: demo_mode_def demo_reads_switches demo_stores_switches)

text \<open>The mode that was chosen: it leaves the server stopped exactly when the user left by a command.\<close>

definition user_leaves :: "Config \<Rightarrow> bool \<Rightarrow> string list \<Rightarrow> bool" where
  "user_leaves cfg no_signal lines \<longleftrightarrow> no_signal \<and> cfg_Interactive cfg \<and> leaves lines"

lemma run_mode_switches:
  assumes "run_mode G J cfg net E E' lines no_signal a = Some (Return a')"
    and "\<And>i. env_ok (E i)" and "\<And>i. env_ok (E' i)" and "app_switches (net a) = app_switches a"
    and "\<not> quit_closed (server a)"
  shows "if user_leaves cfg no_signal lines then quit_closed (server a') else app_switches a' = app_switches a"
proof -
  have "\<not> quit_closed (server (net a))"
    using assms(4,5) by (simp add: app_switches_def switches_def)
  then show ?thesis
    using assms(1,4) interactiveMode_switches [OF _ assms(2)] demo_mode_switches [OF assms(3)]
    by (fastforce simp: run_mode_def user_leaves_def Let_def app_switches_def split: if_splits option.splits go.splits)
qed

section \<open>A concrete start-up\<close>

text \<open>A concrete start-up, and commands during which the network does nothing.\<close>

definition demo_boot :: boot_env where
  "demo_boot = \<lparr>be_rnd = Some (\<lambda>i. of_nat i), be_now = 0, be_local = ''10.0.0.1'', be_public = Inr ''1.2.3.4'',
     be_stat = Inr 0, be_stdin = [], be_mdns = (\<lambda>_ _ _ _ _ _. None), be_host = Inr ''host'', be_ifaces = Inr [],
     be_http = (\<lambda>_. None)\<rparr>"

definition demo_flags :: Flags where
  "demo_flags = no_flags\<lparr>fl_interactive := Some True, fl_key := Some (replicate 32 (CHR ''k'')), fl_quota := Some ''2KB''\<rparr>"

definition demo_cfg :: Config where
  "demo_cfg = DefaultConfig\<lparr>cfg_Interactive := True, cfg_EncKey := replicate 32 (CHR ''k''), cfg_QuotaSize := ''2KB''\<rparr>"

lemma demo_config: "LoadConfig (\<lambda>_ c. Inr c) [] (\<lambda>_. None) demo_flags = Inr demo_cfg"
  by (simp add: LoadConfig_def demo_flags_def no_flags_def demo_cfg_def DefaultConfig_def apply_flags_def set_by_def
      LoadFromEnv_def env_str_def env_bool_def env_dur_def)

definition demo_qjson :: qjson where
  "demo_qjson = \<lparr>MarshalQuota = (\<lambda>c. str_bytes ''{}''), UnmarshalQuota = (\<lambda>_ c. (c, None))\<rparr>"

definition demo_cli :: cli_env where
  "demo_cli = \<lparr>ce_net = (\<lambda>a. a), ce_clock = ''12:00:00'', ce_now = 0, ce_fmt = (\<lambda>_ _. []), ce_rnd = None,
     ce_done = False, ce_cancel = None, ce_await = (\<lambda>s _. (s, TimedOut)), ce_ip = ''10.0.0.1''\<rparr>"

lemma demo_cli_ok: "env_ok demo_cli"
  by (simp add: env_ok_def demo_cli_def)

lemma demo_size: "ParseStorageSize ''2KB'' = Inr 2048"
proof -
  have "''2KB'' = nat_str 2 @ ''KB''" "size_unit ''KB'' = Some 1024"
    by code_simp+
  with ParseStorageSize_digits [of "''KB''" 1024 2] show ?thesis
    by (simp only:) simp
qed

lemma demo_starts: "\<exists>a. start_up unary_json demo_qjson demo_boot demo_cfg [] = Return (Up a)"
proof -
  let ?root = "storage_root '':3000''"
  have "good_root ?root"
    by code_simp
  then have inv: "store_inv \<lparr>Root = ?root, PathTransformFunc = CASPathTransformFunc, keyMap = []\<rparr> []"
    by (intro store_inv_empty) simp_all
  obtain s where s: "makeServer unary_json (Some (\<lambda>i. of_nat i)) 0 [] '':3000'' (str_bytes (replicate 32 (CHR ''k'')))
      (5 * sec) (5 * 60 * sec) (3600 * sec) (5 * 60 * sec) [] = Some s"
    using makeServer_ok [OF inv, of "'':3000''"] by (simp only: store.simps) blast
  have "case init_quota demo_qjson False [] 2048 (NewQuotaManager ?root) [] of Return (Up _) \<Rightarrow> True | _ \<Rightarrow> False"
    by code_simp
  then obtain qm fs' where "init_quota demo_qjson False [] 2048 (QuotaMgr s) (disk s) = Return (Up (qm, fs'))"
    using makeServer_fields(4,5) [OF s] by (auto split: go.splits phase_result.splits)
  moreover have "network_key (replicate 32 (CHR ''k'')) = Some (str_bytes (replicate 32 (CHR ''k'')))"
    by (simp add: network_key_def str_bytes_def)
  ultimately show ?thesis
    using s by (simp add: start_up_def demo_boot_def demo_cfg_def DefaultConfig_def override_quota_def demo_size Let_def
      isTerminal_def)
qed

lemma session_quits:
  assumes "\<not> quit_closed (server (ce_net (E 0) a))"
  shows "\<exists>a'. interactiveMode G J E [''quit''] a =
    Some (Return (a', banner @ [Text ''PeerVault> '', Say ''Shutting down...'']))"
proof -
  have "TrimSpace ''quit'' = ''quit''" "split (CHR '' '') ''quit'' = [''quit'']"
    by code_simp+
  with assms show ?thesis
    by (simp add: interactiveMode_def read_loop.simps(2) run_command_def Stop_def)
qed

end
