(* ===== verification/Session.thy ===== *)
theory Session
  imports CliFacts
begin

text \<open>
  The program as a whole refines the node: after start-up the server is a sound node, and whatever the user
  types, every command, the demo mode and the shut-down are steps of it.
\<close>

section \<open>The configuration file beside the store\<close>

text \<open>A change of the disk that touches neither the node directories nor the key map.\<close>

definition beside :: "store \<Rightarrow> fs \<Rightarrow> fs \<Rightarrow> bool" where
  "beside s fs fs' \<longleftrightarrow> fs_wf fs' \<and> dir_route fs' [] (path_of (Root s)) \<and>
     fs_get fs' (meta_path s) = fs_get fs (meta_path s) \<and>
     (\<forall>nid q. valid_id nid \<longrightarrow> fs_get fs' (node_path s nid @ q) = fs_get fs (node_path s nid @ q))"

lemma beside_store:
  assumes "store_inv s fs" and "beside s fs fs'"
  shows "store_inv s fs'" and "vault s fs' = vault s fs"
proof -
  show "store_inv s fs'"
    using assms by (simp add: store_inv_def beside_def)
  show "vault s fs' = vault s fs"
    using assms(2) by (auto simp: fun_eq_iff vault_def beside_def addr_path_def)
qed

lemma beside_dirs:
  assumes "fs_wf fs1" and "\<And>q. fs_get fs1 q = (if below q (path_of (Root s)) then Some Dir else fs_get fs q)"
  shows "beside s fs fs1"
proof -
  have "dir_route fs1 [] (path_of (Root s))"
    unfolding dir_route_below no_file_def assms(2) by (auto simp: below_iff)
  with assms(1) show ?thesis
    by (simp add: beside_def assms(2) node_below_root meta_not_below)
qed

lemma beside_file:
  assumes "put_file fs (path_of (Root s)) c b fs'" and "CHR ''.'' \<in> set c" and "c \<noteq> ''metadata.json''"
  shows "beside s fs fs'"
proof -
  note get = put_file_get [OF assms(1)]
  have "dir_route fs' [] (path_of (Root s))"
    unfolding dir_route_below no_file_def get by (auto simp: below_iff)
  moreover have "fs_get fs' (node_path s nid @ q) = fs_get fs (node_path s nid @ q)" if "valid_id nid" for nid q
  proof -
    have "nid \<noteq> c" using valid_id_chars [OF that] assms(2) by blast
    then have "node_path s nid @ q \<noteq> path_of (Root s) @ [c]" by (auto simp: node_path_def)
    then show ?thesis by (simp add: get node_below_root)
  qed
  ultimately show ?thesis
    using assms(1,3) by (simp add: beside_def get meta_not_below put_file_def) (simp add: meta_path_def)
qed

lemma quota_Save_beside:
  assumes "store_inv s fs" and "configPath qm = Join [Root s, ''quota.json'']"
    and "quota_Save QJ qm fs = (fs', e)"
  shows "store_inv s fs' \<and> vault s fs' = vault s fs"
proof -
  note inv = store_inv_D [OF assms(1)]
  let ?r = "path_of (Root s)" and ?c = "''quota.json''"
  have norm: "norm_comp ?c" by code_simp
  have r: "Root s \<noteq> []" "path_ok ?r"
    using inv(2) path_of_root by (auto simp: good_root_def)
  have cfg: "configPath qm \<noteq> []" "path_of (configPath qm) = ?r @ [?c]" "Clean (configPath qm) = configPath qm"
    using r(1) path_of_Join2 [OF r(1) norm] by (simp_all add: assms(2) Join_not_Nil Join_nonempty [OF r(1)])
  note dir = Dir_of_path [OF cfg(3,2) norm]
  obtain fs1 where fs1: "os_MkdirAll fs (Dir_of (configPath qm)) = Inr fs1" "fs_wf fs1"
    and get: "\<And>q. fs_get fs1 q = (if below q ?r then Some Dir else fs_get fs q)"
    using os_MkdirAll_ok [OF inv(1) dir(2)] r(2) inv(4) dir(1) by metis
  have "fs' = fs1 \<or> (\<exists>b. put_file fs ?r ?c b fs')"
  proof (cases "fs_get fs1 (?r @ [?c]) = Some Dir")
    case True
    then have "fs' = fs1"
      using assms(3) fs1(1) cfg(2) by (auto simp: quota_Save_def os_WriteFile_def os_Create_def fs_create_def os_err_def split: sum.splits option.splits if_splits inode.splits)
    then show ?thesis ..
  next
    case False
    have "fs_get fs1 ?r = Some Dir" by (simp add: get below_iff)
    then have "fs' = fs_set fs1 (?r @ [?c]) (File (MarshalQuota QJ (config qm)))"
      using assms(3) fs1(1) os_Create_ok(1) [OF fs1(2) cfg(1,2) norm _ False] cfg(2)
      by (simp add: quota_Save_def os_WriteFile_def file_write_def)
    moreover have "fs_get fs (?r @ [?c]) \<noteq> Some Dir"
      using False by (auto simp: get below_iff)
    ultimately show ?thesis
      using put_file_intro [OF fs1(2) norm _ get] by blast
  qed
  then have "beside s fs fs'"
    using beside_dirs [OF fs1(2) get] beside_file by auto
  with beside_store [OF assms(1)] show ?thesis by blast
qed

lemma save_quota_store:
  assumes "store_inv s fs" and "configPath qm = Join [Root s, ''quota.json'']"
    and "save_quota QJ qm n fs = Up (qm', fs')"
  shows "store_inv s fs'" and "vault s fs' = vault s fs"
  using quota_Save_beside [OF assms(1), of "SetMaxStorage qm n"] assms(2,3)
  by (auto simp: save_quota_def SetMaxStorage_def split: prod.splits option.splits)

lemma LoadOrCreate_store:
  assumes "store_inv s fs" and "configPath qm = Join [Root s, ''quota.json'']"
    and "LoadOrCreate QJ qm fs stdin = Return (qm', fs', e)"
  shows "store_inv s fs'" and "vault s fs' = vault s fs" and "configPath qm' = configPath qm"
proof -
  have cases: "(fs' = fs \<or> (\<exists>n. quota_Save QJ (qm\<lparr>config := n\<rparr>) fs = (fs', e))) \<and> configPath qm' = configPath qm"
    using assms(3) by (auto simp: LoadOrCreate_def quota_load_def Let_def
        split: prod.splits sum.splits go.splits option.splits)
  then show "configPath qm' = configPath qm" ..
  have "store_inv s fs' \<and> vault s fs' = vault s fs" if "quota_Save QJ (qm\<lparr>config := n\<rparr>) fs = (fs', e)" for n
    using quota_Save_beside [OF assms(1) _ that] assms(2) by simp
  with cases assms(1) show "store_inv s fs'" and "vault s fs' = vault s fs" by auto
qed

lemma init_quota_store:
  assumes "store_inv s fs" and "configPath qm = Join [Root s, ''quota.json'']"
    and "init_quota QJ tty stdin n qm fs = Return (Up (qm', fs'))"
  shows "store_inv s fs' \<and> vault s fs' = vault s fs"
proof -
  obtain qm1 fs1 e where l: "LoadOrCreate QJ qm fs stdin = Return (qm1, fs1, e)"
    using assms(3) by (auto simp: init_quota_def split: go.splits)
  note one = LoadOrCreate_store [OF assms(1,2) l]
  have cfg: "configPath qm1 = Join [Root s, ''quota.json'']" using one(3) assms(2) by simp
  have "fs' = fs1 \<or> (\<exists>m qm2. save_quota QJ qm1 m fs1 = Up (qm2, fs'))"
    using assms(3) by (auto simp: init_quota_def l Let_def split: go.splits option.splits if_splits phase_result.splits)
  then show ?thesis
    using one(1,2) save_quota_store [OF one(1) cfg] by auto
qed

text \<open>After start-up the server is a sound node.\<close>

lemma start_up_node:
  assumes "start_up J QJ B cfg fs = Return (Up a)" and "store_inv s0 fs"
    and "Root s0 = storage_root (cfg_ListenAddr cfg)"
  shows "node_inv (server a)" and "gc_agrees (server a)"
proof -
  from assms(1) obtain key s q qm fs' where
    s: "makeServer J (be_rnd B) (be_now B) fs (cfg_ListenAddr cfg) key (cfg_FetchTimeout cfg)
          (cfg_PexInterval cfg) (cfg_GCInterval cfg) (cfg_GCDelay cfg) (cfg_Bootstrap cfg) = Some s"
    and q: "init_quota QJ (isTerminal (be_stat B)) (be_stdin B) q (QuotaMgr s) (disk s) = Return (Up (qm, fs'))"
    and a: "server a = (let s1 = s\<lparr>QuotaMgr := qm, disk := fs'\<rparr>
       in if cfg_DiscoverPex cfg then EnablePeerExchange s1 else s1)"
    by (rule start_up_parts) simp
  note f = makeServer_fields(4,5) [OF s]
  have node: "node_inv s" "gc_agrees s" "\<exists>m. srv_store s = s0\<lparr>keyMap := m\<rparr>"
    using NewFileServer_node [OF assms(2) _ _ s [unfolded makeServer_def]] assms(3) by simp_all
  have "configPath (QuotaMgr s) = Join [Root s0, ''quota.json'']"
    by (simp add: f assms(3) NewQuotaManager_def)
  then have "store_inv s0 fs'"
    using init_quota_store [of s0 "disk s", OF _ _ q] assms(2) f(2) by simp
  then have "store_inv (srv_store s) fs'"
    using node(3) by auto
  with node(1,2) show "node_inv (server a)" and "gc_agrees (server a)"
    by (simp_all add: a Let_def EnablePeerExchange_def node_inv_def srv_inv_def wait_inv_def gc_agrees_def)
qed

section \<open>The commands are steps of the node\<close>

lemma srv_run_ops:
  "srv_run G J s (fst (Store G J s rnd c key r))"
  "srv_run G J s (fst (Get G s cancel key))"
  "srv_run G J s (fst (server_Delete s key))"
  "srv_run G J s (fst (ClearStorage s))"
  "srv_run G J s (ClearKeyMapping J s)"
  "Stop s = Return s' \<Longrightarrow> srv_run G J s s'"
  "pex_Stop (Pex s) = Return p \<Longrightarrow> srv_run G J s (s\<lparr>Pex := p\<rparr>)"
proof -
  let ?n = "fresh_node s"
  have n: "n_srv ?n = s" by (simp add: fresh_node_def)
  show "srv_run G J s (fst (Store G J s rnd c key r))"
    using srv_stepI [OF node_step.do_store [of G J ?n rnd c key r "fst (Store G J s rnd c key r)" "snd (Store G J s rnd c key r)"]]
    by (auto simp: n)
  show "srv_run G J s (fst (Get G s cancel key))"
  proof (cases "Get G s cancel key")
    case (Pair s' g)
    then show ?thesis
      using srv_stepI [OF node_step.do_get [of G ?n cancel key s']]
        srv_stepI [OF node_step.do_get_wait [of G ?n cancel key s']] by (cases g) (auto simp: n)
  qed
  show "srv_run G J s (fst (server_Delete s key))"
    using srv_stepI [OF node_step.do_delete [of ?n key "fst (server_Delete s key)" "snd (server_Delete s key)"]]
    by (auto simp: n)
  show "srv_run G J s (fst (ClearStorage s))"
    using srv_stepI [OF node_step.do_clear [of ?n "fst (ClearStorage s)" "snd (ClearStorage s)"]] by (auto simp: n)
  show "srv_run G J s (ClearKeyMapping J s)"
    using srv_stepI [OF node_step.do_clear_keys [of G J ?n]] by (simp add: n r_into_rtranclp)
  show "Stop s = Return s' \<Longrightarrow> srv_run G J s s'"
    using srv_stepI [OF node_step.do_stop [of ?n s']] by (auto simp: n)
  show "pex_Stop (Pex s) = Return p \<Longrightarrow> srv_run G J s (s\<lparr>Pex := p\<rparr>)"
    using srv_stepI [OF node_step.pex_stops [of ?n p]] by (auto simp: n)
qed

text \<open>What the network does between the commands is steps of the node, too.\<close>

definition env_runs :: "gob \<Rightarrow> json \<Rightarrow> cli_env \<Rightarrow> bool" where
  "env_runs G J E \<longleftrightarrow> (\<forall>a. srv_run G J (server a) (server (ce_net E a))) \<and>
     (\<forall>s ch. srv_run G J s (fst (ce_await E s ch)))"

lemma fetch_runs:
  assumes "env_runs G J E"
  shows "srv_run G J s (fst (fetch G E key s))"
proof (cases "Get G s (ce_cancel E) key")
  case (Pair s' g)
  then have "srv_run G J s s'"
    using srv_run_ops(2) [of G J s "ce_cancel E" key] by simp
  moreover have "srv_run G J s' (fst (ce_await E s' ch))" for ch
    using assms by (simp add: env_runs_def)
  ultimately show ?thesis
    by (auto simp: fetch_server Pair split: get_state.split intro: rtranclp_trans)
qed

text \<open>The message of \<open>send\<close> cannot be encoded, since its type is not registered.\<close>

lemma cmd_send_same:
  assumes "gob_ok G"
  shows "fst (cmd_send G f a s) = s"
proof -
  have "\<exists>e. enc_msg G (MessageStoreFile (srv_ID s) (HashKey f) 0) = Inl e"
    using assms unfolding gob_ok_def by (metis gob_registered.simps(3))
  then show ?thesis
    by (auto simp: cmd_send_def Let_def split: option.split sum.split)
qed

lemma cmd_clean_runs:
  assumes "cmd_clean J ls s = Return (s', os, leave)"
  shows "srv_run G J s s'"
proof -
  consider "s' = s" | s1 s2 e where "Stop s = Return s1" "ClearStorage s1 = (s2, e)" "s' = s2 \<or> s' = ClearKeyMapping J s2"
    using assms by (auto simp: cmd_clean_def Let_def split: list.splits if_splits prod.splits option.splits go.splits)
  then show ?thesis
  proof cases
    case 2
    have "srv_run G J s s2"
      using srv_run_ops(6) [OF 2(1)] srv_run_ops(4) [of G J s1] 2(2) by (auto intro: rtranclp_trans)
    with 2(3) srv_run_ops(5) [of G J s2] show ?thesis by (auto intro: rtranclp_trans)
  qed simp
qed

lemma run_command_runs:
  assumes "run_command G J E parts ls a = Some (Return (a1, k, os, goes_on))" and "env_runs G J E" and "gob_ok G"
  shows "srv_run G J (server a) (server a1)"
proof -
  have del: "srv_run G J s s'" if "cmd_delete f ls s = (s', os)" for f s s' os
    using cmd_server(3) [of f ls s] that srv_run_ops(3) [of G J s f] by (auto split: if_splits)
  show ?thesis
    using assms(1) fetch_runs [OF assms(2)] srv_run_ops(1) srv_run_ops(6) [of "server a"] cmd_clean_runs [of J ls "server a"] del
    by (auto simp: run_command_def Let_def command_results cmd_server cmd_send_same [OF assms(3)]
        split: if_splits go.splits prod.splits)
qed

lemma read_loop_runs:
  assumes "read_loop G J E n ls a = Some (Return (a', os))" and "\<And>i. env_runs G J (E i)" and "gob_ok G"
  shows "srv_run G J (server a) (server a')"
  using assms
proof (induction G J E n ls a arbitrary: os rule: read_loop.induct)
  case (1 G J E n a)
  then show ?case by (simp add: read_loop.simps)
next
  case (2 G J E n line ls a)
  show ?case
  proof (cases "TrimSpace line = []")
    case True
    with 2(3) obtain os0 where "read_loop G J E n ls a = Some (Return (a', os0))"
      by (auto simp: read_loop.simps(2) Let_def split: option.splits go.splits)
    with 2(1) [OF refl refl True _ 2(4,5)] show ?thesis by simp
  next
    case False
    let ?a = "ce_net (E n) a"
    obtain a1 k os1 g where
      run: "run_command G J (E n) (split (CHR '' '') (TrimSpace line)) ls ?a = Some (Return (a1, k, os1, g))"
      using 2(3) False by (auto simp: read_loop.simps Let_def split: option.splits go.splits)
    have "srv_run G J (server a) (server ?a)"
      using 2(4) by (simp add: env_runs_def)
    then have one: "srv_run G J (server a) (server a1)"
      using run_command_runs [OF run 2(4,5)] by (rule rtranclp_trans)
    show ?thesis
    proof (cases g)
      case True
      with 2(3) False run obtain os2 where "read_loop G J E (n + 1) (drop k ls) a1 = Some (Return (a', os2))"
        by (auto simp: read_loop.simps(2) Let_def split: option.splits go.splits)
      then have "srv_run G J (server a1) (server a')"
        using "2.IH"(2) [OF refl refl False run refl refl refl refl, simplified, OF True _ "2.prems"(2,3)] by simp
      with one show ?thesis by (rule rtranclp_trans)
    next
      case False
      with 2(3) \<open>TrimSpace line \<noteq> []\<close> run have "a' = a1" by (simp add: read_loop.simps(2) Let_def)
      with one show ?thesis by simp
    qed
  qed
qed

lemma demo_stores_runs: "srv_run G J s (demo_stores G J E is s)"
  by (induction G J E "is" s rule: demo_stores.induct) (auto intro: rtranclp_trans [OF srv_run_ops(1)])

lemma demo_reads_runs:
  "(\<And>i. env_runs G J (E i)) \<Longrightarrow> srv_run G J s (fst (demo_reads G E is s))"
proof (induction G E "is" s rule: demo_reads.induct)
  case (2 G E i "is" s)
  then show ?case
    using fetch_runs [of G J "E i" s "demo_file i"] by (auto split: prod.splits intro: rtranclp_trans)
qed simp

lemma run_mode_runs:
  assumes "run_mode G J cfg net E E' lines no_signal a = Some (Return a')"
    and "\<And>i. env_runs G J (E i)" and "\<And>i. env_runs G J (E' i)" and "srv_run G J (server a) (server (net a))"
    and "gob_ok G"
  shows "srv_run G J (server a) (server a')"
proof -
  have "srv_run G J (server (net a)) (server a')"
  proof -
    consider "a' = net a" | os where "read_loop G J E 0 lines (net a) = Some (Return (a', os))"
      | "server a' = fst (demo_mode G J E E' (server (net a)))"
      using assms(1)
      by (auto simp: run_mode_def interactiveMode_def Let_def split: if_splits option.splits go.splits prod.splits)
    then show ?thesis
    proof cases
      case 2
      then show ?thesis by (rule read_loop_runs [OF _ assms(2,5)])
    next
      case 3
      then show ?thesis
        using rtranclp_trans [OF demo_stores_runs demo_reads_runs [of G J E', OF assms(3)]]
        by (simp add: demo_mode_def)
    qed simp
  qed
  with assms(4) show ?thesis by (rule rtranclp_trans)
qed

lemma shut_down_runs:
  assumes "shut_down a = Return a'"
  shows "srv_run G J (server a) (server a')"
proof -
  obtain s1 p where "Stop (server a) = Return s1" "pex_Stop (Pex s1) = Return p" "server a' = s1\<lparr>Pex := p\<rparr>"
    using assms by (auto simp: shut_down_def split: go.splits option.splits)
  then show ?thesis
    using rtranclp_trans [OF srv_run_ops(6) srv_run_ops(7)] by metis
qed

end
