(* ===== verification/Spec2Isabelle.thy ===== *)
theory Spec2Isabelle
  imports Session
begin

text \<open>
  \<^bold>\<open>PeerVault: a verification development\<close>

  PeerVault is a peer-to-peer file store.  A node keeps files under a directory of its own, encrypted and
  authenticated with a key that all nodes share, copies every file it stores to the peers it is connected
  to, and asks them for files it does not have.

  \<^bold>\<open>The parts and how they interact.\<close>
  \<open>cmd/peervault\<close> reads the configuration, builds a \<open>FileServer\<close> and runs the commands of a user.  The
  server (\<open>internal/network/server.go\<close>) calls the content store (\<open>internal/storage/store.go\<close>), which calls
  \<open>internal/crypto\<close> and the file system; it sends messages and streams over peers of the transport
  (\<open>pkg/p2p\<close>), and takes what peers send from a channel in one loop.  Peer exchange (\<open>pex.go\<close>) and mDNS
  discovery (\<open>discovery.go\<close>) find addresses to dial.  The garbage collector (\<open>gc.go\<close>) walks the node's
  directory beside the server; \<open>internal/quota\<close> measures it, and \<open>internal/metrics\<close> prints counters.

  \<^bold>\<open>Which theory models which part.\<close>
  \<^item> \<open>Prelude\<close>: bytes, 64-bit integers, errors and panics (\<open>go\<close>) as values, readers and writers, Go maps as
    association lists; the locales \<open>codec\<close> (what is encoded decodes) and \<open>machine\<close> (a step relation with an
    invariant, and its reachable states).
  \<^item> \<open>GoStrings\<close>, \<open>GoPath\<close>, \<open>GoIO\<close>, \<open>GoFloat\<close>, \<open>GoTime\<close>: what the program uses of \<open>strings\<close>, \<open>strconv\<close>,
    \<open>encoding/hex\<close>, \<open>path/filepath\<close>, \<open>io\<close>, \<open>float64\<close> (rationals, rounded to nearest even after every
    operation) and \<open>time\<close>.
  \<^item> \<open>FileSys\<close>, \<open>FileWalk\<close>: the tree of directories and files with the calls of \<open>os\<close>, and \<open>filepath.Walk\<close>
    with a callback that may delete what is still to be visited.  The locales \<open>walker\<close> and \<open>walk_reader\<close> say
    what such a callback has to keep, and give what the walk returns.
  \<^item> \<open>Sha256\<close>, \<open>Aes\<close>: SHA-256, HMAC, AES and CTR mode, executable.
  \<^item> \<open>Crypto\<close>: \<open>internal/crypto/crypto.go\<close>; \<open>seal\<close> is the file format (HMAC, IV, cipher text).
  \<^item> \<open>Store\<close>, \<open>StoreFacts\<close>: \<open>internal/storage/store.go\<close>, one definition per method, the disk passed along.
    \<open>store_inv\<close> is the well-formedness of a store, \<open>vault\<close> its abstraction to a map from node and hash of
    the key to bytes; the locale \<open>blob_store\<close> is the contract that \<open>Write\<close>, \<open>Read\<close>, \<open>Has\<close> and \<open>Delete\<close> implement.
  \<^item> \<open>KeyMapLock\<close>: callers of the store that run at the same time, under the lock of the key map: the relation
    \<open>km_step\<close> between the phases of \<open>Write\<close>, \<open>ClearKeyMap\<close> and \<open>saveKeyMap\<close>, down to the truncation and the writing of
    the file.  A caller that is alone does what the atomic definitions of \<open>Store\<close> do.
  \<^item> \<open>Gc\<close>: \<open>internal/storage/gc.go\<close>, both passes and the event loop.
  \<^item> \<open>P2P\<close>: \<open>pkg/p2p\<close>: the decoders, peers, the transport with its listener, \<open>Dial\<close>, and the read loop of
    \<open>handleConn\<close> as the step relation \<open>conn_step\<close>.
  \<^item> \<open>Metrics\<close>, \<open>MetricsServer\<close>, \<open>Quota\<close>: \<open>internal/metrics\<close> (counters, formats, progress; the handlers, the page
    and the HTTP server) and \<open>internal/quota\<close>.
  \<^item> \<open>Server\<close>, \<open>PeerExchange\<close>, \<open>ServerFacts\<close>: \<open>server.go\<close> and \<open>pex.go\<close>.  A \<open>FileServer\<close> is a record with its
    disk, its peers (their sockets as readers and writers) and its waiters; \<open>loop\<close> runs a list of events; the
    relation \<open>pex_step\<close> runs a network of nodes that exchange peer lists.  \<open>node_inv\<close> is the invariant of a
    server.
  \<^item> \<open>Node\<close>: a running node.  The relation \<open>node_step\<close> has one rule for each thing a goroutine that shares the server
    can do: \<open>Start\<close>, the calls of the user, a request that waits and wakes up, the message loop, a new
    connection, a tick of the collector, peer exchange, and the ends of the goroutines.  \<open>vault_step\<close> is the
    abstract machine on the map of files that the node refines.
  \<^item> \<open>Config\<close>, \<open>NetUtil\<close>, \<open>Discovery\<close>, \<open>Cli\<close>, \<open>CliFacts\<close>: \<open>config.go\<close> and the logger's level, \<open>network.go\<close>,
    \<open>discovery.go\<close>, and \<open>main.go\<close>: one definition per command (\<open>cmd_store\<close> and so on), \<open>interactiveMode\<close> over
    the lines of the standard input, and \<open>main\<close>, composed of \<open>start_up\<close>, \<open>run_mode\<close> and \<open>shut_down\<close>.
  \<^item> \<open>Session\<close>: every command, the demo and the shut-down are steps of the node.
  \<^item> \<open>Instances\<close>: concrete serialisers and a concrete node, on which the hypotheses of the properties are
    shown to hold.
  The properties are in this theory, numbered C1 to C40; a property with a hypothesis is followed by a witness
  that applies it to a concrete input.

  \<^bold>\<open>What is shown.\<close>
  \<^item> Encryption (C1 to C3): the round trip for every way of cutting the data into reads, rejection of every
    input whose tag does not match before anything is written, and that the buffered copy is CTR mode.
  \<^item> Storage (C4 to C10): \<open>Write\<close>, \<open>Read\<close>, \<open>Has\<close>, \<open>Delete\<close> and \<open>List\<close> refine a map, over any history of calls;
    no path leaves the node's directory; the key map survives a restart, and concurrent writers.  \<open>Delete\<close>
    removes the whole first directory, so that it can remove other keys as well: C6 says which.
  \<^item> Garbage collection (C11, C12): what a cleanup removes, that it and the loop around it end, and that it
    removes a file that was stored normally.
  \<^item> The server (C13 to C24): a stored file survives every run of the node; replication to a peer and retrieval
    from one, end to end over the wire; the invariant of a node and its refinement of the abstract machine;
    crashes and leaks, and what is sent.
  \<^item> The network (C25 to C29): peer exchange, dialling, and the connection's read loop.
  \<^item> Measuring (C30 to C35): byte formatting, progress, HTML escaping, quota arithmetic, size parsing, and the
    shapes of identifiers and paths.
  \<^item> The program as a whole (C36 to C40): life cycle, refinement of the node, configuration, addresses, discovery.

  \<^bold>\<open>Conventions.\<close>
  A call that can panic returns \<open>Panic\<close>.  Time is an argument; where the code reads the clock twice in a row to
  compare and to record, one reading is used, except in the progress reports.  A goroutine is the list of events
  its \<open>select\<close> receives; \<open>range\<close> over a map takes the order of the association list, and statements do not
  depend on it.  A read from the network is any cutting of the bytes into pieces.
  \<^item> Fuel: only \<open>Walk\<close> recurses on fuel, the depth of the deepest path plus one (\<open>walk_fuel\<close>); the callbacks
    only delete, and C7, C11 and C33 give results, not only partial ones.  Every other recursion has a
    termination proof.
  \<^item> Parameters, for code that is not in the repository: \<open>encoding/gob\<close> (\<open>gob\<close>, with the laws \<open>gob_ok\<close>),
    \<open>encoding/json\<close> (\<open>json\<close>, with \<open>json_ok\<close>, and \<open>qjson\<close>), the YAML library, the mDNS library, HTTP answers,
    the system's random source (\<open>entropy\<close>) and its clock formats.

  \<^bold>\<open>Not modelled.\<close>
  \<^item> Interleaving within one operation, except for the key map: an operation of the server, a cleanup and a store
    call are atomic steps of the node, in any order.
  \<^item> Sockets, signals and the waits of two seconds: what they bring about is an argument or a label.  Log lines.
  \<^item> The interfaces of \<open>transport.go\<close>, which hold no code, and the accessor \<open>Consume\<close> of the channel.
  \<^item> Letter case and white space beyond ASCII in \<open>ToUpper\<close>, \<open>ToLower\<close> and \<open>TrimSpace\<close>; permissions, symbolic links
    and failures of the disk other than those the tree itself causes; a \<open>quota.json\<close> that holds \<open>null\<close>.
\<close>

section \<open>Encryption\<close>

text \<open>
  C1. Encrypting succeeds for every source that can be read to its end, and decrypting the result
  (however its bytes are cut into reads) gives exactly the data back.
\<close>

theorem encrypt_decrypt_roundtrip:
  assumes "valid_key key" and "drain src = (d, None)"
  shows "\<exists>w. CopyEncrypt key (Some f) src new_buffer = (w, Inr (48 + length d)) \<and>
    (\<forall>r. drain r = (w_buf w, None) \<longrightarrow>
       CopyDecrypt key r new_buffer = (new_buffer\<lparr>w_buf := d\<rparr>, Inr (length d)))"
proof -
  let ?w = "new_buffer\<lparr>w_buf := seal key (fresh_iv f) d\<rparr>"
  have "CopyEncrypt key (Some f) src new_buffer = (?w, Inr (48 + length d))"
    by (simp add: CopyEncrypt_eq [OF assms(1)] new_buffer_def assms(2))
  moreover have "CopyDecrypt key r new_buffer = (new_buffer\<lparr>w_buf := d\<rparr>, Inr (length d))"
    if "drain r = (w_buf ?w, None)" for r
    using CopyDecrypt_eq [OF assms(1) _ that, of new_buffer] by (simp add: new_buffer_def unseal_seal)
  ultimately show ?thesis by blast
qed

theorem encrypt_decrypt_roundtrip_witness:
  "\<exists>w. CopyEncrypt demo_key (Some (\<lambda>_. 9)) [([1], ROk), ([2], REof)] new_buffer = (w, Inr 50) \<and>
    (\<forall>r. drain r = (w_buf w, None) \<longrightarrow>
       CopyDecrypt demo_key r new_buffer = (new_buffer\<lparr>w_buf := [1, 2]\<rparr>, Inr 2))"
  using encrypt_decrypt_roundtrip [of demo_key "[([1], ROk), ([2], REof)]" "[1, 2]" "\<lambda>_. 9"]
  by (simp add: numeral_2_eq_2)

text \<open>
  C2. Decryption is authenticated: it writes the plain text of a source that unseals under the key;
  for every other source it fails and writes nothing, with \<open>EOF\<close> or \<open>ErrUnexpectedEOF\<close> when the source is
  shorter than tag and IV, and the HMAC error otherwise.
\<close>

theorem decrypt_authenticated:
  assumes "valid_key key" and "w_err dst = None" and "drain src = (c, None)"
  shows "CopyDecrypt key src dst =
    (if 48 \<le> length c \<and> take 32 c = hmac_sha256 (hmacKey key) (drop 32 c)
     then (dst\<lparr>w_buf := w_buf dst @ ctr_crypt key (take 16 (drop 32 c)) (drop 48 c)\<rparr>, Inr (length c - 48))
     else (dst, Inl (if length c < 48 then (if length c = 0 \<or> length c = 32 then IoEOF else UnexpectedEOF)
                     else hmac_failed)))"
proof -
  have "take 16 (drop 32 c) @ drop 48 c = drop 32 c"
    using append_take_drop_id [of 16 "drop 32 c"] by simp
  then show ?thesis
    using CopyDecrypt_eq [OF assms] by (simp add: unseal_def tag_def Let_def short_error_def)
qed

theorem decrypt_authenticated_witness:
  "CopyDecrypt demo_key [([1, 2], ROk), ([3], REof)] new_buffer = (new_buffer, Inl UnexpectedEOF)"
  using decrypt_authenticated [of demo_key new_buffer "[([1, 2], ROk), ([3], REof)]" "[1, 2, 3]"]
  by (simp add: new_buffer_def)

text \<open>
  C3. The streaming cipher does not depend on how the source cuts its data: for every chunking the
  output is the one-shot encryption of all the bytes read before the end or the first error.
\<close>

theorem copyStream_chunking:
  assumes "w_err dst = None"
  shows "copyStream st 0 src dst =
    (dst\<lparr>w_buf := w_buf dst @ snd (XORKeyStream st (fst (drain src)))\<rparr>,
     case snd (drain src) of None \<Rightarrow> Inr (length (fst (drain src))) | Some e \<Rightarrow> Inl e)"
  using copyStream_drain [OF assms, of st 0 src] by (simp split: prod.splits option.splits)

theorem copyStream_chunking_witness:
  "copyStream (NewCTR (\<lambda>_. replicate 16 1) (replicate 16 0)) 0 [([5], ROk), ([], ROk), ([6, 8], ROk)] new_buffer =
    (new_buffer\<lparr>w_buf := [4, 7, 9]\<rparr>, Inr 3)"
proof -
  have "snd (XORKeyStream (NewCTR (\<lambda>_. replicate 16 1) (replicate 16 0)) [5, 6, 8]) = [4, 7, 9 :: byte]"
    by code_simp
  then show ?thesis
    using copyStream_chunking [of new_buffer "NewCTR (\<lambda>_. replicate 16 1) (replicate 16 0)"
        "[([5], ROk), ([], ROk), ([6, 8], ROk)]"]
    by (simp add: new_buffer_def)
qed

section \<open>The content store\<close>

text \<open>
  C4. Writing refines an update of the map from node and file name to content: on a well-formed store
  the write succeeds, stores all the bytes, changes no other file, remembers the original key and leaves
  the store well-formed.  A read error of the source is returned after the bytes before it were stored.
\<close>

theorem Write_refines:
  assumes "store_inv s fs" and "ValidateNodeID nid = Inr ()"
  shows "\<exists>s' fs'. store_Write J s fs nid key r =
      (s', fs', case snd (drain r) of None \<Rightarrow> Inr (length (fst (drain r))) | Some e \<Rightarrow> Inl e) \<and>
    store_inv s' fs' \<and> vault s' fs' = (vault s fs)((nid, HashKey key) \<mapsto> fst (drain r)) \<and>
    GetOriginalKey s' = (GetOriginalKey s)(HashKey key \<mapsto> key)"
proof -
  obtain fs' where "store_Write J s fs nid key r =
      (learn s key, fs', case drain r of (d, None) \<Rightarrow> Inr (length d) | (d, Some e) \<Rightarrow> Inl e)"
    "store_inv s fs'" "vault s fs' = (vault s fs)((nid, HashKey key) \<mapsto> fst (drain r))"
    using Write_vault [OF assms] by metis
  moreover have "GetOriginalKey (learn s key) = (GetOriginalKey s)(HashKey key \<mapsto> key)"
    by (simp add: GetOriginalKey_def fun_eq_iff)
  ultimately show ?thesis
    by (intro exI [of _ "learn s key"] exI [of _ fs']) (simp split: prod.split option.split)
qed

theorem Write_refines_witness:
  "\<exists>s' fs'. store_Write unary_json demo_store [] demo_id ''a.txt'' [([1, 2], ROk)] = (s', fs', Inr 2) \<and>
    store_inv s' fs' \<and> vault s' fs' = (vault demo_store [])((demo_id, HashKey ''a.txt'') \<mapsto> [1, 2]) \<and>
    GetOriginalKey s' = (GetOriginalKey demo_store)(HashKey ''a.txt'' \<mapsto> ''a.txt'')"
  using Write_refines [OF demo_store_inv demo_id_valid, of unary_json "''a.txt''" "[([1, 2], ROk)]"]
  by (simp add: numeral_2_eq_2)

text \<open>
  C5. After any history of writes and deletions by any nodes, reading a key returns what the last write
  to the same name left, unless a later deletion of the node took it: a deletion takes every key whose
  hash begins with the same five characters.
\<close>

theorem store_history:
  assumes "store_inv s fs" and "list_all (\<lambda>p. ValidateNodeID (op_owner p) = Inr ()) ops"
  shows "store_get (fold (\<lambda>p st. case p of Put n k b \<Rightarrow> store_put J n k b st | Del n k \<Rightarrow> store_del n k st)
      ops (s, fs)) nid key =
    replay (\<lambda>k k'. HashKey k = HashKey k') (\<lambda>k k'. take 5 (HashKey k) = take 5 (HashKey k'))
      ops nid key (store_get (s, fs) nid key)"
proof -
  have "(\<lambda>p st. case p of Put n k b \<Rightarrow> store_put J n k b st | Del n k \<Rightarrow> store_del n k st) = blobs.apply_op J"
    by (simp add: fun_eq_iff split: blob_op.split)
  then show ?thesis
    using blobs.history_get [of "(s, fs)" ops J nid key] assms by (simp add: comp_def)
qed

theorem store_history_witness:
  "store_get (fold (\<lambda>p st. case p of Put n k b \<Rightarrow> store_put unary_json n k b st | Del n k \<Rightarrow> store_del n k st)
      [Put demo_id ''k'' [1], Put ''ab'' ''k'' [2], Put demo_id ''k'' [3], Del ''ab'' ''k''] (demo_store, []))
      demo_id ''k'' = Some [3]"
proof -
  have id: "demo_id \<noteq> ''ab''" "ValidateNodeID ''ab'' = Inr ()"
    by code_simp+
  show ?thesis
    using store_history [of demo_store "[]" "[Put demo_id ''k'' [1], Put ''ab'' ''k'' [2], Put demo_id ''k'' [3],
      Del ''ab'' ''k'']" unary_json demo_id "''k''"] id by simp
qed



text \<open>
  C7. Looking up agrees with the map of files.  A stored file is read whole with its size, a missing one is
  \<open>ErrNotExist\<close>, \<open>Has\<close> holds exactly for the stored ones; and listing a node returns, without error and without
  duplicates, exactly one entry per stored file, with its name, size and node, and the original key if the key
  map knows it.
\<close>

theorem lookup_exact:
  assumes "store_inv s fs" and "ValidateNodeID nid = Inr ()"
  shows "\<exists>files. store_List s fs nid = Some (Return files, None) \<and> distinct (map fi_Hash files) \<and>
    set files = {\<lparr>fi_Key = (case GetOriginalKey s h of Some k \<Rightarrow> k | None \<Rightarrow> ''file_'' @ take 8 h),
                  fi_Hash = h, fi_Size = length b, fi_NodeID = nid\<rparr> | h b. vault s fs (nid, h) = Some b} \<and>
    (case vault s fs (nid, HashKey key) of
       Some b \<Rightarrow> store_Has s fs nid key \<and> store_Read s fs nid key = Inr (length b, bytes_reader b)
     | None \<Rightarrow> \<not> store_Has s fs nid key \<and>
         (\<exists>p. path_of p = file_path s nid key \<and> store_Read s fs nid key = Inl (PathError ENOENT p)))"
proof -
  obtain files where "store_List s fs nid = Some (Return files, None)"
    "set files = {file_info s nid h b | h b. vault s fs (nid, h) = Some b}" "distinct (map fi_Hash files)"
    using List_vault [OF assms] .
  moreover have "case vault s fs (nid, HashKey key) of
       Some b \<Rightarrow> store_Has s fs nid key \<and> store_Read s fs nid key = Inr (length b, bytes_reader b)
     | None \<Rightarrow> \<not> store_Has s fs nid key \<and>
         (\<exists>p. path_of p = file_path s nid key \<and> store_Read s fs nid key = Inl (PathError ENOENT p))"
    using Read_vault [OF assms, of key] Has_vault [OF assms(1), of nid key] by (auto split: option.split)
  ultimately show ?thesis
    unfolding file_info_def shown_key_def GetOriginalKey_def by (intro exI [of _ files] conjI)
qed

theorem lookup_exact_witness:
  "\<exists>files. store_List demo_store1 demo_fs1 demo_id = Some (Return files, None) \<and> distinct (map fi_Hash files) \<and>
    set files = {\<lparr>fi_Key = ''k'', fi_Hash = HashKey ''k'', fi_Size = 2, fi_NodeID = demo_id\<rparr>} \<and>
    store_Has demo_store1 demo_fs1 demo_id ''k'' \<and>
    store_Read demo_store1 demo_fs1 demo_id ''k'' = Inr (2, bytes_reader [1, 2])"
proof -
  have "GetOriginalKey demo_store1 (HashKey ''k'') = Some ''k''"
    by (simp add: demo_store1_def GetOriginalKey_def)
  moreover have "vault demo_store1 demo_fs1 (demo_id, h) = Some b \<longleftrightarrow> h = HashKey ''k'' \<and> b = [1, 2]" for h b
    by (auto simp: vault_demo1)
  ultimately show ?thesis
    using lookup_exact [OF demo_fs1_inv demo_id_valid, of "''k''"] by (simp add: numeral_2_eq_2 vault_demo1)
qed







section \<open>The garbage collector\<close>

text \<open>
  C11. One cleanup pass of the garbage collector ends, keeps the store well-formed and removes, for its own node,
  exactly the files that share their directory with a file whose content does not hash to its name.  The loop
  processes every sequence of ticks to its end or to the first stop signal, and touches no file of another node.
\<close>

theorem performCleanup_effect:
  assumes "store_inv (gc_store gc) fs" and "ValidateNodeID (gc_nodeID gc) = Inr ()" and "integrityEnabled gc"
  shows "\<exists>fs' stats. performCleanup gc fs = Some (fs', stats) \<and> store_inv (gc_store gc) fs' \<and>
    (\<forall>n h. vault (gc_store gc) fs' (n, h) =
       (if n = gc_nodeID gc \<and>
           (\<exists>h' b. vault (gc_store gc) fs (n, h') = Some b \<and> EncodeToString (Sum256 b) \<noteq> h' \<and>
              hash_blocks h' = hash_blocks h)
        then None else vault (gc_store gc) fs (n, h))) \<and>
    (\<exists>fs'. gc_run gc es fs = Some (fs', CtxDone \<notin> set es \<and> StopChan \<notin> set es) \<and> store_inv (gc_store gc) fs' \<and>
      (\<forall>n h. n \<noteq> gc_nodeID gc \<longrightarrow> vault (gc_store gc) fs' (n, h) = vault (gc_store gc) fs (n, h)))"
proof -
  have "tainted (gc_store gc) fs (gc_nodeID gc) h \<longleftrightarrow>
      (\<exists>h' b. vault (gc_store gc) fs (gc_nodeID gc, h') = Some b \<and> EncodeToString (Sum256 b) \<noteq> h' \<and>
         hash_blocks h' = hash_blocks h)" for h
    using vault_length [OF assms(1)] unfolding tainted_def corrupted_def by blast
  then have "(integrityEnabled gc \<and> n = gc_nodeID gc \<and> tainted (gc_store gc) fs (gc_nodeID gc) h) =
      (n = gc_nodeID gc \<and> (\<exists>h' b. vault (gc_store gc) fs (n, h') = Some b \<and> EncodeToString (Sum256 b) \<noteq> h' \<and>
         hash_blocks h' = hash_blocks h))" for n h
    using assms(3) by blast
  then show ?thesis
    using performCleanup_cases [OF assms(1,2)] gc_run_spec [OF assms(2,1), of es] by simp
qed

theorem performCleanup_effect_witness:
  "\<exists>fs' stats. performCleanup demo_gc demo_fs1 = Some (fs', stats) \<and> store_inv demo_store1 fs' \<and>
    vault demo_store1 fs' (demo_id, HashKey ''k'') =
      (if EncodeToString (Sum256 [1, 2]) = HashKey ''k'' then Some [1, 2] else None) \<and>
    (\<exists>fs2. gc_run demo_gc [InitialDelay, Ticker, StopChan, Ticker] demo_fs1 = Some (fs2, False))"
proof -
  let ?es = "[InitialDelay, Ticker, StopChan, Ticker]"
  note eff = performCleanup_effect [of demo_gc demo_fs1 ?es, unfolded demo_gc_simps, OF demo_fs1_inv demo_id_valid demo_gc_simps(3)]
  then have "\<exists>fs2. gc_run demo_gc ?es demo_fs1 = Some (fs2, False)"
    by (auto simp del: gc_run.simps)
  moreover obtain fs' stats where *: "performCleanup demo_gc demo_fs1 = Some (fs', stats)" "store_inv demo_store1 fs'"
    "\<forall>n h. vault demo_store1 fs' (n, h) =
       (if n = demo_id \<and>
           (\<exists>h' b. vault demo_store1 demo_fs1 (n, h') = Some b \<and> EncodeToString (Sum256 b) \<noteq> h' \<and>
              hash_blocks h' = hash_blocks h)
        then None else vault demo_store1 demo_fs1 (n, h))"
    using eff by blast
  then have "vault demo_store1 fs' (demo_id, HashKey ''k'') =
      (if EncodeToString (Sum256 [1, 2]) = HashKey ''k'' then Some [1, 2] else None)"
    by (auto simp: vault_demo1 simp del: EncodeToString_inj)
  ultimately show ?thesis using *(1,2) by blast
qed

text \<open>
  C12. The integrity check compares the hash of the content with the file name, which is the hash of the key.
  So the first cleanup after the server stored its first file deletes that file, unless the sealed bytes
  happen to hash to the hash of the key.
\<close>

theorem gc_removes_stored_file:
  assumes "srv_inv s" and "valid_key (EncKey s)" and "drain r = (d, None)"
    and "\<And>h. vault (srv_store s) (disk s) (srv_ID s, h) = None"
    and "Store G J s (Some f) cancelled key r = (s', err)"
    and "NewGarbageCollector (srv_store s') (srv_ID s') interval delay = Some gc"
  shows "\<exists>fs' stats. performCleanup gc (disk s') = Some (fs', stats) \<and>
    holds (s'\<lparr>disk := fs'\<rparr>) key =
      (if EncodeToString (Sum256 (seal (EncKey s) (fresh_iv f) d)) = HashKey key
       then Some (seal (EncKey s) (fresh_iv f) d) else None)"
proof -
  let ?b = "seal (EncKey s) (fresh_iv f) d"
  obtain t where t: "Store G J s (Some f) cancelled key r = (t, None)" "srv_inv t"
    "vault (srv_store t) (disk t) = (vault (srv_store s) (disk s))((srv_ID s, HashKey key) \<mapsto> ?b)"
    "srv_ID t = srv_ID s"
    using Store_ok [OF assms(1-3)] .
  have s': "s' = t"
    using assms(5) t(1) by simp
  have gc: "gc_store gc = srv_store t" "gc_nodeID gc = srv_ID s" "integrityEnabled gc"
    using assms(6) t(4) by (auto simp: NewGarbageCollector_def s' split: sum.splits)
  have v: "vault (srv_store t) (disk t) (srv_ID s, h) = (if h = HashKey key then Some ?b else None)" for h
    using assms(4) by (simp add: t(3))
  have "tainted (srv_store t) (disk t) (srv_ID s) (HashKey key) \<longleftrightarrow> EncodeToString (Sum256 ?b) \<noteq> HashKey key"
    by (auto simp: tainted_def corrupted_def v simp del: EncodeToString_inj)
  then show ?thesis
    using performCleanup_cases [of gc "disk t"] srv_invD [OF t(2)] gc t(4)
    by (auto simp: holds_def s' v simp del: EncodeToString_inj)
qed

theorem gc_removes_stored_file_witness:
  "\<exists>s' gc fs' stats. Store unary_gob unary_json demo_server (Some (\<lambda>i. of_nat i)) False ''k'' (bytes_reader [1]) = (s', None) \<and>
    NewGarbageCollector (srv_store s') (srv_ID s') 1 1 = Some gc \<and> performCleanup gc (disk s') = Some (fs', stats) \<and>
    holds (s'\<lparr>disk := fs'\<rparr>) ''k'' =
      (if EncodeToString (Sum256 (seal demo_key (fresh_iv (\<lambda>i. of_nat i)) [1])) = HashKey ''k''
       then Some (seal demo_key (fresh_iv (\<lambda>i. of_nat i)) [1]) else None)"
proof -
  let ?f = "\<lambda>i. of_nat i :: byte"
  have pre: "srv_inv demo_server" "valid_key (EncKey demo_server)" "drain (bytes_reader [1]) = ([1], None)"
    using demo_node_inv by (simp_all add: node_inv_def)
  obtain s' where s': "Store unary_gob unary_json demo_server (Some ?f) False ''k'' (bytes_reader [1]) = (s', None)"
    and id: "srv_ID s' = srv_ID demo_server"
    by (rule Store_ok [OF pre, where G = unary_gob and J = unary_json and f = ?f and cancelled = False and key = "''k''"])
  have "ValidateNodeID (srv_ID s') = Inr ()"
    unfolding id by simp
  then obtain gc where gc: "NewGarbageCollector (srv_store s') (srv_ID s') 1 1 = Some gc"
    by (simp add: NewGarbageCollector_def)
  have "vault (srv_store demo_server) (disk demo_server) (srv_ID demo_server, h) = None" for h
    by (simp add: vault_empty good_root_demo)
  from gc_removes_stored_file [OF pre this s' gc] s' gc show ?thesis
    by auto
qed

section \<open>The file server\<close>







text \<open>
  C16. A node that asked the network for a file is not woken when the file arrives: the waiter is registered
  under the hash of the key, the stream handler notifies under the key itself.  The file is stored, and the
  request still waits.
\<close>

theorem network_answer_not_noticed:
  assumes "node_inv s" and "holds s key = None" and "length (waiting s (HashKey key)) < maxWaitersPerKey"
    and "Get G s cancel key = (s1, st)" and "length key \<noteq> 64"
    and "map_of ps a = Some p" and "0 < peer_wg p" and "drain (peer_in p) = (frame_of hdr (d @ rest), None)"
    and "length hdr < 2 ^ 15" and "dec_hdr G hdr = Inr h" and "sh_Key h = key" and "sh_Size h = int (length d)"
  shows "\<exists>ch s2. st = Waiting_on ch \<and> handleStream G J (s1\<lparr>Peers := ps\<rparr>) a = Return (s2, None) \<and>
    holds s2 key = Some d \<and> ch \<in> set (waiting s2 (HashKey key)) \<and> \<not> wake_enabled s2 ch Notified"
proof -
  obtain t where t: "Get G s cancel key = (t, Waiting_on (next_ch s))" "node_inv t"
    "waiting t (HashKey key) = waiting s (HashKey key) @ [next_ch s]" "ready t = ready s"
    using Get_waits [OF assms(1-3)] .
  let ?t = "t\<lparr>Peers := ps\<rparr>"
  have s1: "s1 = t" "st = Waiting_on (next_ch s)"
    using assms(4) t(1) by simp_all
  have inv: "srv_inv ?t" "wait_inv ?t" "map_of (Peers ?t) a = Some p"
    using t(2) assms(6) by (simp_all add: node_inv_def srv_inv_def wait_inv_def waiting_def)
  have silent: "notifyFileWaiter ?t (sh_Key h) = ?t"
    using notify_other [OF inv(2)] assms(5,11) by simp
  have "next_ch s \<notin> set (ready s)"
    using assms(1) by (auto simp: node_inv_def wait_inv_def)
  then have asleep: "next_ch s \<notin> set (ready ?t)" "next_ch s \<in> set (waiting ?t (HashKey key))"
    using t(3,4) by (simp_all add: waiting_def)
  show ?thesis
  proof (rule handleStream_frame [OF inv(1,3) assms(7-10,12), where J = J])
    fix s2 p'
    assume h: "handleStream G J ?t a = Return (s2, None)" "srv_ID s2 = srv_ID ?t"
      "vault (srv_store s2) (disk s2) = (vault (srv_store ?t) (disk ?t))((srv_ID ?t, HashKey (sh_Key h)) \<mapsto> d)"
      "waiters s2 = waiters (notifyFileWaiter ?t (sh_Key h))" "ready s2 = ready (notifyFileWaiter ?t (sh_Key h))"
    have "holds s2 key = Some d"
      unfolding holds_def h(2,3) assms(11) by simp
    moreover have "ready s2 = ready ?t" "waiting s2 = waiting ?t"
      using h(4,5) silent by (simp_all add: waiting_def fun_eq_iff)
    ultimately show ?thesis
      using h(1) asleep s1 by (simp add: wake_enabled_def)
  qed
qed

theorem network_answer_not_noticed_witness:
  "\<exists>s1 s2. Get unary_gob demo_server None ''k'' = (s1, Waiting_on 0) \<and>
    handleStream unary_gob unary_json (s1\<lparr>Peers := [(''a'',
      \<lparr>RemoteAddr = ''a'', peer_in = bytes_reader (frame_of (put_hdr \<lparr>sh_ID = ''ab'', sh_Key = ''k'', sh_Size = 2\<rparr>) [5, 6]),
       peer_out = new_buffer, outbound = False, peer_wg = 1\<rparr>)]\<rparr>) ''a'' = Return (s2, None) \<and>
    holds s2 ''k'' = Some [5, 6] \<and> \<not> wake_enabled s2 0 Notified"
proof -
  let ?h = "\<lparr>sh_ID = ''ab'', sh_Key = ''k'', sh_Size = 2\<rparr>"
  let ?p = "\<lparr>RemoteAddr = ''a'', peer_in = bytes_reader (frame_of (put_hdr ?h) [5, 6]),
       peer_out = new_buffer, outbound = False, peer_wg = 1\<rparr>"
  have none: "holds demo_server ''k'' = None"
    by (simp add: holds_def vault_empty good_root_demo)
  obtain s1 where s1: "Get unary_gob demo_server None ''k'' = (s1, Waiting_on 0)"
    by (rule Get_waits [OF demo_node_inv none, where G = unary_gob and cancel = None])
      (simp_all add: waiting_def maxWaitersPerKey_def)
  have room: "length (waiting demo_server (HashKey ''k'')) < maxWaitersPerKey"
    by (simp add: waiting_def maxWaitersPerKey_def)
  have p: "length ''k'' \<noteq> 64" "map_of [(''a'', ?p)] ''a'' = Some ?p" "0 < peer_wg ?p"
    "drain (peer_in ?p) = (frame_of (put_hdr ?h) ([5, 6] @ []), None)"
    "length (put_hdr ?h) < 2 ^ 15" "dec_hdr unary_gob (put_hdr ?h) = Inr ?h" "sh_Key ?h = ''k''"
    "sh_Size ?h = int (length [5 :: byte, 6])"
    by (simp_all add: unary_gob_def get_put_hdr)
  from network_answer_not_noticed [OF demo_node_inv none room s1 p, of unary_json] s1
  show ?thesis by blast
qed



text \<open>
  C18. Accepting connections and running the server keep the node invariant (a well-formed store, and waiters that are
  fresh, distinct, bounded and registered under full hashes) through every sequence of connections, messages and
  streams it survives; the accept loop crashes exactly when a call of \<open>Accept\<close> fails before the listener is closed.
\<close>

theorem loop_keeps_invariant:
  assumes "node_inv s"
  shows "((\<exists>x. startAcceptLoop s as = Panic x) \<longleftrightarrow> (\<exists>e. AcceptFailed e \<in> set (takeWhile (\<lambda>a. a \<noteq> AcceptClosed) as))) \<and>
    (startAcceptLoop s as = Return (s1, cs) \<longrightarrow> node_inv s1 \<and> length cs = length (takeWhile (\<lambda>a. a \<noteq> AcceptClosed) as) \<and>
       list_all (\<lambda>c. conn_init c \<and> map_of (Peers s1) (RemoteAddr (c_peer c)) \<noteq> None) cs) \<and>
    (Start G J listen s es = Return (s2, dials, err) \<longrightarrow> node_inv s2)"
  using assms startAcceptLoop_panics [of s as] startAcceptLoop_inv [of s as s1 cs] Start_inv [of G J listen s es s2 dials err]
  by (auto simp: live_def list_all_iff)

theorem loop_keeps_invariant_witness:
  "\<exists>s' dials. Start unary_gob unary_json (\<lambda>_. None) (demo_server\<lparr>GC := demo_gc\<rparr>)
     [GotRPC 0 \<lparr>rpc_From = ''a'', rpc_Payload = [], rpc_Stream = True\<rparr>, QuitCh] = Return (s', dials, None) \<and>
     node_inv s' \<and> listener (Transport s') = ListenerClosed"
proof -
  let ?s = "demo_server\<lparr>GC := demo_gc\<rparr>"
  have inv: "node_inv ?s"
    using demo_node_inv by (simp add: node_inv_cong [of ?s demo_server] del: demo_node_inv)
  have "Start unary_gob unary_json (\<lambda>_. None) ?s
     [GotRPC 0 \<lparr>rpc_From = ''a'', rpc_Payload = [], rpc_Stream = True\<rparr>, QuitCh] =
       Return (?s\<lparr>Transport := (Transport ?s)\<lparr>listener := ListenerClosed\<rparr>\<rparr>, [], None)"
    by (simp add: Start_def ListenAndAccept_def transport_Close_def loop_rpc_def handleStream_def demo_gc_def sec_def
        bootstrapNetwork_def demo_server_def)
  with loop_keeps_invariant [OF inv] show ?thesis by fastforce
qed

text \<open>
  C19. Handling a stream of a known peer panics exactly when the two length bytes the peer sent decode to a negative
  16-bit number: a remote peer can stop the server with two bytes.
\<close>

theorem handleStream_panics_iff:
  assumes "map_of (Peers s) a = Some p" and "0 < peer_wg p"
  shows "(\<exists>x. handleStream G J s a = Panic x) \<longleftrightarrow>
    (\<exists>sz r. ReadFull 2 (peer_in p) = (Inr sz, r) \<and> i16 (int (of_le_bytes sz)) < 0)"
  using handleStream_Panic [OF assms, of G J] by blast

theorem handleStream_panics_iff_witness:
  "\<exists>x. handleStream unary_gob unary_json (demo_server\<lparr>Peers := [(''a'',
     \<lparr>RemoteAddr = ''a'', peer_in = bytes_reader [0, 0x80], peer_out = new_buffer, outbound = False, peer_wg = 1\<rparr>)]\<rparr>) ''a'' = Panic x"
proof -
  let ?p = "\<lparr>RemoteAddr = ''a'', peer_in = bytes_reader [0, 0x80], peer_out = new_buffer, outbound = False, peer_wg = 1\<rparr>"
  have "ReadFull 2 (peer_in ?p) = (Inr [0, 0x80], [])" "i16 (int (of_le_bytes [0, 0x80])) < 0"
    by code_simp+
  then show ?thesis
    using handleStream_panics_iff [of "demo_server\<lparr>Peers := [(''a'', ?p)]\<rparr>" "''a''" ?p unary_gob unary_json] by auto
qed





text \<open>
  C22. A server started again without an identifier draws a new one, and no longer sees the file it had stored:
  the bytes are still on the disk, under the directory of the old identifier.
\<close>

theorem restart_forgets:
  assumes "srv_inv s" and "valid_key (EncKey s)" and "drain r = (d, None)"
    and "Store G J s (Some f) cancelled key r = (s', err)"
    and "o_StorageRoot opts = Root (srv_store s)" and "o_PathTransformFunc opts = Some CASPathTransformFunc"
    and "o_ID opts = []" and "EncodeToString (map g [0..<32]) \<noteq> srv_ID s"
    and "vault (srv_store s) (disk s) (EncodeToString (map g [0..<32]), HashKey key) = None"
  shows "\<exists>t. NewFileServer J opts (Some g) now (disk s') = Some t \<and> holds t key = None \<and>
    vault (srv_store t) (disk t) (srv_ID s, HashKey key) = Some (seal (EncKey s) (fresh_iv f) d)"
proof -
  let ?b = "seal (EncKey s) (fresh_iv f) d"
  obtain t where t: "Store G J s (Some f) cancelled key r = (t, None)" "srv_inv t"
    "vault (srv_store t) (disk t) = (vault (srv_store s) (disk s))((srv_ID s, HashKey key) \<mapsto> ?b)"
    "srv_ID t = srv_ID s" "EncKey t = EncKey s" "srv_store t = learn (srv_store s) key"
    using Store_ok [OF assms(1-3)] .
  have s': "s' = t"
    using assms(4) t(1) by simp
  have root: "Root (srv_store t) = o_StorageRoot opts"
    unfolding t(6) using assms(5) by simp
  obtain u where u: "NewFileServer J opts (Some g) now (disk t) = Some u" "disk u = disk t"
    "srv_ID u = EncodeToString (map g [0..<32])" "vault (srv_store u) (disk t) = vault (srv_store t) (disk t)"
    using NewFileServer_ok [OF srv_invD(1) [OF t(2)] root assms(6,7), of J g now] by blast
  show ?thesis
    unfolding s' using u t(3) assms(8,9) by (intro exI [of _ u]) (simp add: holds_def)
qed

theorem restart_forgets_witness:
  "\<exists>s' t. Store unary_gob unary_json demo_server (Some (\<lambda>i. of_nat i)) False ''k'' (bytes_reader [1]) = (s', None) \<and>
    NewFileServer unary_json demo_opts (Some (\<lambda>i. of_nat i)) 0 (disk s') = Some t \<and> holds t ''k'' = None"
proof -
  let ?f = "\<lambda>i. of_nat i :: byte"
  have pre: "srv_inv demo_server" "valid_key (EncKey demo_server)" "drain (bytes_reader [1]) = ([1], None)"
    using demo_node_inv by (simp_all add: node_inv_def)
  obtain s' err where s': "Store unary_gob unary_json demo_server (Some ?f) False ''k'' (bytes_reader [1]) = (s', err)"
    by (rule prod.exhaust)
  obtain s'' where "Store unary_gob unary_json demo_server (Some ?f) False ''k'' (bytes_reader [1]) = (s'', None)"
    by (rule Store_ok [OF pre, where G = unary_gob and J = unary_json and f = ?f and cancelled = False and key = "''k''"])
  with s' have err: "err = None" by simp
  have opts: "o_StorageRoot demo_opts = Root (srv_store demo_server)" by simp
  have "length (EncodeToString (map ?f [0..<32])) \<noteq> length (srv_ID demo_server)"
    by simp
  then have new: "EncodeToString (map ?f [0..<32]) \<noteq> srv_ID demo_server"
    by metis
  have empty: "vault (srv_store demo_server) (disk demo_server) (n, h) = None" for n h
    by (simp add: vault_empty good_root_demo)
  from restart_forgets [OF pre s' opts demo_opts_simps(3,1) new empty, of 0] s' err show ?thesis
    by blast
qed





section \<open>Peers and connections\<close>

text \<open>
  C25. Peer exchange never exchanges a peer: in every reachable state of a network of nodes only empty lists are in
  flight, no node knows a peer and no message leads to a dial, because nothing but a received list ever adds one.
\<close>

theorem pex_never_shares:
  assumes "pex_machine.reach n"
  shows "(\<forall>m \<in> inflight n. m = []) \<and>
    (\<forall>i now m. m \<in> inflight n \<longrightarrow> snd (HandlePeerExchange now (nodes n i) m) = []) \<and>
    (\<forall>i. knownPeers (Pex (nodes n i)) = [])"
  using pex_machine.reach_inv [OF assms] by (auto simp: pex_silent_def HandlePeerExchange_def)

theorem pex_never_shares_witness:
  "\<forall>i. knownPeers (Pex (nodes \<lparr>nodes = (\<lambda>_. demo_server)(0 := demo_server\<lparr>Pex := pex_Start (Pex demo_server)\<rparr>),
     inflight = {}\<rparr> i)) = []"
  using pex_never_shares [OF pex_demo_reach] by blast







text \<open>
  C29. A connection closed by the remote side is never given up: the decoder drops the end of file, so the read loop
  can always push another empty message, and no step but a stream handler changes that.
\<close>

theorem closed_connection_spins:
  assumes "peer_in (c_peer c) = []" and "c_phase c = Reading" and "length (c_queue c) < rpcch_cap"
  shows "(\<exists>c'. conn_step c (Pushed (empty_rpc\<lparr>rpc_From := RemoteAddr (c_peer c)\<rparr>)) c') \<and>
    (\<forall>l c'. conn_step c l c' \<longrightarrow> (\<forall>r. l \<noteq> Handled r) \<longrightarrow> c_phase c' = Reading \<and> peer_in (c_peer c') = [])"
  using closed_pushes [OF assms] closed_never_fails [OF _ assms(1,2)] by blast

theorem closed_connection_spins_witness:
  "\<exists>c'. conn_step demo_conn (Pushed (empty_rpc\<lparr>rpc_From := ''a''\<rparr>)) c' \<and> c_phase c' = Reading \<and> peer_in (c_peer c') = []"
proof -
  have "length (c_queue demo_conn) < rpcch_cap"
    by (simp add: rpcch_cap_def)
  from closed_connection_spins [OF _ _ this] show ?thesis
    by (simp, blast)
qed

section \<open>Metrics and quota\<close>

text \<open>
  C30. Sizes are shown with the largest unit that fits, for sizes below one exbibyte; from there on the unit table
  is exceeded and the call panics.
\<close>

theorem FormatBytes_spec:
  assumes "b < 2 ^ 63"
  shows "(b < 1024 \<longrightarrow> FormatBytes b = Return (Itoa b @ '' B'')) \<and>
    (1024 \<le> b \<longrightarrow> (\<exists>ex. 1024 ^ Suc ex \<le> b \<and> b < 1024 ^ Suc (Suc ex) \<and>
       FormatBytes b = (if ex < 5
         then Return (fmt_f 2 (f64 (f64 (of_int b) / f64 (of_int (1024 ^ Suc ex)))) @ '' '' @ [''KB'', ''MB'', ''GB'', ''TB'', ''PB''] ! ex)
         else Panic ''index out of range''))) \<and>
    (FormatBytes b = Panic ''index out of range'' \<longleftrightarrow> 2 ^ 60 \<le> b)"
proof (intro conjI impI)
  show "FormatBytes b = Return (Itoa b @ '' B'')" if "b < 1024"
    using that by (simp add: FormatBytes_def)
  show "\<exists>ex. 1024 ^ Suc ex \<le> b \<and> b < 1024 ^ Suc (Suc ex) \<and>
       FormatBytes b = (if ex < 5
         then Return (fmt_f 2 (f64 (f64 (of_int b) / f64 (of_int (1024 ^ Suc ex)))) @ '' '' @ [''KB'', ''MB'', ''GB'', ''TB'', ''PB''] ! ex)
         else Panic ''index out of range'')" if "1024 \<le> b"
    unfolding size_units_def [symmetric]
    by (rule FormatBytes_cases [OF that assms]) (intro exI conjI)
qed (rule FormatBytes_panics [OF assms])

theorem FormatBytes_spec_witness:
  "FormatBytes (2 ^ 60) = Panic ''index out of range'' \<and> FormatBytes (2 ^ 60 - 1) \<noteq> Panic ''index out of range''"
  using FormatBytes_spec [of "2 ^ 60"] FormatBytes_spec [of "2 ^ 60 - 1"] by simp

text \<open>
  C31. Reading through the progress reader ends, gives exactly the bytes and the error of the underlying reader, and
  counts them.
\<close>

theorem progress_transparent:
  assumes "0 < k" and "pr_total pr < 2 ^ 60" and "0 \<le> pr_transferred pr"
    and "pr_transferred pr + int (length (fst (drain (pr_reader pr)))) < 2 ^ 60"
    and "rd_size (pr_reader pr) < length clock"
  shows "\<exists>s pr'. pr_drain k clock pr = Some (Return (fst (drain (pr_reader pr)), s, pr')) \<and>
    (case s of RErr e \<Rightarrow> Some e | _ \<Rightarrow> None) = snd (drain (pr_reader pr)) \<and>
    pr_transferred pr' = pr_transferred pr + int (length (fst (drain (pr_reader pr))))"
proof -
  obtain bs s pr' where d: "pr_drain k clock pr = Some (Return (bs, s, pr'))"
    using pr_drain_total [OF assms] by blast
  note spec = pr_drain_spec [OF d]
  have "i64 (pr_transferred pr + int (length bs)) = pr_transferred pr + int (length bs)"
    using assms(3,4) spec by (intro i64_id) auto
  with d spec show ?thesis by simp
qed

theorem progress_transparent_witness:
  "\<exists>s pr'. pr_drain 2 [(0, 0), (0, 0), (0, 0), (0, 0), (0, 0), (0, 0)]
      (NewProgressReader 0 [([1, 2, 3], ROk)] 3 ''x'') = Some (Return ([1, 2, 3], s, pr')) \<and> pr_transferred pr' = 3"
  using progress_transparent [of 2 "NewProgressReader 0 [([1, 2, 3], ROk)] 3 ''x''" "[(0, 0), (0, 0), (0, 0), (0, 0), (0, 0), (0, 0)]"]
  by (auto simp: NewProgressReader_def rd_size_def simp del: pr_drain.simps)


text \<open>
  C33. A file is admitted exactly when it fits into what the quota leaves over the sizes of all files below the
  storage root; the space reported is never negative.
\<close>

theorem CheckQuota_exact:
  assumes "fs_wf fs" and "rt \<noteq> []" and "\<not> is_root (path_of rt)" and "fs_get fs (path_of rt) = Some i"
    and "tree_size fs (path_of rt) < 2 ^ 63" and "MaxStorageBytes (config qm) < 2 ^ 63"
  shows "CheckQuota qm fs rt n =
    Some (Inr (n \<le> max 0 (MaxStorageBytes (config qm) - tree_size fs (path_of rt)),
               max 0 (MaxStorageBytes (config qm) - tree_size fs (path_of rt))))"
proof -
  have "i64 (tree_size fs (path_of rt)) = tree_size fs (path_of rt)"
    using tree_size_nonneg [of fs "path_of rt"] assms(5) by (intro i64_id) auto
  then have "GetCurrentUsage fs rt = Some (Inr (tree_size fs (path_of rt)))"
    using GetCurrentUsage_eq [OF assms(1-4)] by simp
  then show ?thesis
    using CheckQuota_eq tree_size_nonneg assms(6) by blast
qed

theorem CheckQuota_exact_witness:
  "CheckQuota (SetMaxStorage (NewQuotaManager ''v'') 10) [([''v''], Dir), ([''v'', ''a''], File [1, 2, 3])] ''v'' 8 =
    Some (Inr (False, 7))"
proof -
  let ?fs = "[([''v''], Dir), ([''v'', ''a''], File [1, 2, 3])]" and ?qm = "SetMaxStorage (NewQuotaManager ''v'') 10"
  have *: "path_of ''v'' = [''v'']" by code_simp
  have "fs_get ?fs (path_of ''v'') = Some Dir" "\<not> is_root (path_of ''v'')" "tree_size ?fs (path_of ''v'') = 3"
    unfolding * by code_simp+
  moreover have "MaxStorageBytes (config ?qm) = 10"
    by (simp add: SetMaxStorage_def)
  moreover have "fs_wf ?fs"
    by code_simp
  ultimately show ?thesis
    using CheckQuota_exact [of ?fs "''v''" Dir ?qm 8] by simp
qed

text \<open>
  C34. A whole number followed by a known unit is read exactly, as long as number and product are within range.
\<close>

theorem ParseStorageSize_correct:
  assumes "size_unit u = Some m" and "int n < 2 ^ 53" and "int n * m < 2 ^ 63"
  shows "ParseStorageSize (nat_str n @ u) = Inr (int n * m)"
  by (rule ParseStorageSize_digits [OF assms])

theorem ParseStorageSize_correct_witness:
  "ParseStorageSize ''10GB'' = Inr (10 * 1024 * 1024 * 1024)"
proof -
  have "nat_str 10 @ ''GB'' = ''10GB''" "size_unit ''GB'' = Some (1024 * 1024 * 1024)"
    by code_simp+
  then show ?thesis
    using ParseStorageSize_correct [of "''GB''" "1024 * 1024 * 1024" 10] by simp
qed

section \<open>Names and paths\<close>

text \<open>
  C35. The accepted node identifiers are exactly the non-empty strings of an even number of hexadecimal digits.  The
  path of a key is twelve directories of five hexadecimal digits each, the first sixty of the hash, and the
  file is named by the whole hash.
\<close>

theorem identifiers_and_paths:
  "(ValidateNodeID nid = Inr () \<longleftrightarrow>
     nid \<noteq> [] \<and> even (length nid) \<and> list_all (\<lambda>c. hex_value c \<noteq> None) nid) \<and>
   (\<exists>bs. length bs = 12 \<and> list_all (\<lambda>b. length b = 5 \<and> list_all is_hex_char b) bs \<and>
    CASPathTransformFunc key = \<lparr>PathName = str_join ''/'' bs, Filename = HashKey key\<rparr> \<and>
    concat bs @ drop 60 (HashKey key) = HashKey key)"
proof -
  have "concat (cas_blocks key) = take 60 (HashKey key)"
    by (simp add: hash_blocks_def concat_blocks)
  moreover have "list_all (\<lambda>b. length b = 5 \<and> list_all is_hex_char b) (cas_blocks key)"
    using hex_name_block [of _ key] by (simp add: list_all_iff hex_name_def)
  ultimately show ?thesis
    by (intro conjI valid_id_iff exI [of _ "cas_blocks key"]) (simp_all add: CAS_eq sep_def)
qed

section \<open>The node as a whole\<close>







text \<open>
  C39. For an IP address without brackets, the advertised address splits back into that address and the port of the listen
  address, and is refused exactly when the listen address does not split: the retry with \<open>localhost\<close> prepended never
  helps.
\<close>

theorem advertise_addr:
  assumes "set ip \<inter> {CHR ''['', CHR '']''} = {}"
  shows "case BuildAdvertiseAddr ip listen of
      Inr a \<Rightarrow> (\<exists>host port. SplitHostPort listen = Inr (host, port) \<and> SplitHostPort a = Inr (ip, port))
    | Inl _ \<Rightarrow> (\<exists>e. SplitHostPort listen = Inl e)"
proof (cases "SplitHostPort listen")
  case (Inl e)
  then have "\<exists>e. BuildAdvertiseAddr ip listen = Inl e"
    using SplitHostPort_prefix [of listen]
    by (cases "SplitHostPort (''localhost'' @ listen)") (auto simp: BuildAdvertiseAddr_def ParseListenAddr_def)
  with Inl show ?thesis by auto
next
  case (Inr hp)
  then obtain host port where hp: "SplitHostPort listen = Inr (host, port)"
    by (cases hp) auto
  then have "BuildAdvertiseAddr ip listen = Inr (JoinHostPort ip port)"
    by (simp add: BuildAdvertiseAddr_def ParseListenAddr_def)
  then show ?thesis
    using hp SplitHostPort_JoinHostPort [OF assms SplitHostPort_port [OF hp]] by simp
qed

theorem advertise_addr_witness:
  "BuildAdvertiseAddr ''10.0.0.7'' ''0.0.0.0:3000'' = Inr ''10.0.0.7:3000'' \<and>
   SplitHostPort ''10.0.0.7:3000'' = Inr (''10.0.0.7'', ''3000'')"
proof -
  have "BuildAdvertiseAddr ''10.0.0.7'' ''0.0.0.0:3000'' = Inr ''10.0.0.7:3000''"
    "SplitHostPort ''0.0.0.0:3000'' = Inr (''0.0.0.0'', ''3000'')"
    by code_simp+
  then show ?thesis
    using advertise_addr [of "''10.0.0.7''" "''0.0.0.0:3000''"] by auto
qed

text \<open>
  C40. The discovery loop dials one address at most once in five minutes, over all its scans, and dials only addresses of
  entries that were found in a scan and are not the node itself.
\<close>

theorem discovery_rate:
  assumes "startDiscovery ifaces evs ds = (ds', dials)"
  shows "(i < j \<and> j < length dials \<and> dials ! i = (t, a) \<and> dials ! j = (t', a) \<longrightarrow> t + 5 * 60 * sec \<le> t') \<and>
    ((t, a) \<in> set dials \<longrightarrow> (\<exists>en. (False, t, en) \<in> set (entries evs) \<and> entry_addr en = Some a \<and>
       \<not> is_self ds (local_ips ifaces) en))"
proof -
  have "sorted_wrt (\<lambda>(t, a) (t', a'). a = a' \<longrightarrow> t + 5 * 60 * sec \<le> t') dials"
    using startDiscovery_spaced [OF assms] by (simp add: spaced_def)
  moreover have "dialable ifaces ds (entries evs) (t, a)" if "(t, a) \<in> set dials"
    using startDiscovery_dialable [OF assms] that by (simp add: list_all_iff)
  ultimately show ?thesis
    by (auto simp: dialable_def dest: sorted_wrt_nth_less)
qed

theorem discovery_rate_witness:
  "\<exists>t t'. snd (startDiscovery (Inr []) [Scan [(False, 0, \<lparr>en_Port = 9, en_AddrV4 = ParseIP ''10.0.0.9'', en_AddrV6 = None\<rparr>),
        (False, 60 * sec, \<lparr>en_Port = 9, en_AddrV4 = ParseIP ''10.0.0.9'', en_AddrV6 = None\<rparr>)],
      Scan [(False, 300 * sec, \<lparr>en_Port = 9, en_AddrV4 = ParseIP ''10.0.0.9'', en_AddrV6 = None\<rparr>)]]
      (SetPeerFoundCallback (NewDiscoveryService ''peervault'' 9 []))) =
    [(t, ''10.0.0.9:9''), (t', ''10.0.0.9:9'')] \<and> t + 5 * 60 * sec \<le> t'"
proof -
  let ?en = "\<lparr>en_Port = 9, en_AddrV4 = ParseIP ''10.0.0.9'', en_AddrV6 = None\<rparr> :: ServiceEntry"
  let ?run = "startDiscovery (Inr []) [Scan [(False, 0, ?en), (False, 60 * sec, ?en)], Scan [(False, 300 * sec, ?en)]]
      (SetPeerFoundCallback (NewDiscoveryService ''peervault'' 9 []))"
  have out: "snd ?run = [(0, ''10.0.0.9:9''), (300 * sec, ''10.0.0.9:9'')]"
    by code_simp
  obtain ds' dials where run: "?run = (ds', dials)"
    by fastforce
  have "0 + 5 * 60 * sec \<le> 300 * sec"
    using discovery_rate [OF run, of 0 1 0 "''10.0.0.9:9''" "300 * sec"] out run by simp
  with out show ?thesis
    by (intro exI [of _ 0] exI [of _ "300 * sec"]) simp
qed

end
